theory Spec2Isabelle
  imports Complex_Main
begin

section \<open>Rate of spread, crown fraction burned and slope adjustment of the FBP system\<close>

text \<open>
  The development embeds the TypeScript sources of the rate-of-spread engine
  (\<^verbatim>\<open>rateOfSpreadExtended\<close>, \<^verbatim>\<open>rateOfSpread\<close>), of its helpers
  (\<^verbatim>\<open>buildupEffect\<close>, \<^verbatim>\<open>criticalSurfaceIntensity\<close>,
  \<^verbatim>\<open>surfaceFireRateOfSpread\<close>, \<^verbatim>\<open>crownFractionBurned\<close>, the C6 functions,
  \<^verbatim>\<open>initialSpreadIndex\<close>) and of \<^verbatim>\<open>slopeAdjustment\<close> and \<^verbatim>\<open>Slopecalc\<close>.

  Conventions of the embedding.
  \<^item> A JavaScript number is a real number: arithmetic is exact, \<^verbatim>\<open>Math.exp\<close>,
    \<^verbatim>\<open>Math.log\<close>, \<^verbatim>\<open>Math.sqrt\<close>, \<^verbatim>\<open>Math.sin\<close>, \<^verbatim>\<open>Math.cos\<close>, \<^verbatim>\<open>Math.acos\<close> are
    \<open>exp\<close>, \<open>ln\<close>, \<open>sqrt\<close>, \<open>sin\<close>, \<open>cos\<close>, \<open>arccos\<close>, and \<^verbatim>\<open>Math.pow(x, y)\<close> is
    \<open>x powr y\<close>. The two agree (rounding apart) where the source divides by a
    non-zero number, takes the logarithm of a positive number and raises a
    non-negative base to a positive exponent; \<^verbatim>\<open>NaN\<close> and \<^verbatim>\<open>Infinity\<close> have no
    counterpart, so the theorems below name the inputs they are about.
    \<^verbatim>\<open>crownFractionBurned\<close> is embedded a second time, in double precision
    (\<open>crownFractionBurned_double\<close>), for the statement about its range.
  \<^item> A fuel type is a string in the source. The datatype \<open>fuel\<close> has the seventeen
    keys of the coefficient tables, the two names \<^verbatim>\<open>"NF"\<close> and \<^verbatim>\<open>"WA"\<close> that
    \<^verbatim>\<open>slopeAdjustment\<close> tests for, and \<open>Other\<close> for every other string. A table
    lookup at a missing key is \<^verbatim>\<open>undefined\<close> in the source and \<open>None\<close> here.
  \<^item> The source is vectorised over parallel arrays of one length. A batch is a
    list of observations (one record per index), and a statement of the source
    of the form \<^verbatim>\<open>X.map((x, i) => e)\<close>, where \<^verbatim>\<open>e\<close> reads index \<^verbatim>\<open>i\<close> of the
    other arrays only, is the function \<^verbatim>\<open>e\<close> of one observation, mapped over the
    batch.
\<close>

subsection \<open>Fuel types and coefficient tables\<close>

datatype fuel =
  C1 | C2 | C3 | C4 | C5 | C6 | C7 | D1 | M1 | M2 | M3 | M4 | S1 | S2 | S3 | O1A | O1B
  | NF | WA | Other

text \<open>The list \<^verbatim>\<open>d\<close> of the source: the keys of every table.\<close>

definition d_keys :: "fuel list" where
  "d_keys = [C1, C2, C3, C4, C5, C6, C7, D1, M1, M2, M3, M4, S1, S2, S3, O1A, O1B]"

text \<open>The tables \<^verbatim>\<open>BUIo\<close> and \<^verbatim>\<open>Q\<close> of \<^verbatim>\<open>buildupEffect\<close>.\<close>

definition BUIo :: "fuel \<Rightarrow> real option" where
  "BUIo = map_of (zip d_keys [72, 64, 62, 66, 56, 62, 106, 32, 50, 50, 50, 50, 38, 63, 31, 1, 1])"

definition Q :: "fuel \<Rightarrow> real option" where
  "Q = map_of (zip d_keys
     [0.9, 0.7, 0.75, 0.8, 0.8, 0.8, 0.85, 0.9, 0.8, 0.8, 0.8, 0.8, 0.75, 0.75, 0.75, 1.0, 1.0])"

text \<open>
  The tables \<^verbatim>\<open>a\<close>, \<^verbatim>\<open>b\<close>, \<^verbatim>\<open>c0\<close> of \<^verbatim>\<open>rateOfSpreadExtended\<close> (arrays read at
  \<^verbatim>\<open>names[FUELTYPE[i]]\<close>) and of \<^verbatim>\<open>slopeAdjustment\<close> (objects with the same
  entries).
\<close>

definition a_coef :: "fuel \<Rightarrow> real option" where
  "a_coef = map_of (zip d_keys
     [90, 110, 110, 110, 30, 30, 45, 30, 0, 0, 120, 100, 75, 40, 55, 190, 250])"

definition b_coef :: "fuel \<Rightarrow> real option" where
  "b_coef = map_of (zip d_keys
     [0.0649, 0.0282, 0.0444, 0.0293, 0.0697, 0.0800, 0.0305, 0.0232, 0, 0, 0.0572, 0.0404,
      0.0297, 0.0438, 0.0829, 0.0310, 0.0350])"

definition c0_coef :: "fuel \<Rightarrow> real option" where
  "c0_coef = map_of (zip d_keys
     [4.5, 1.5, 3.0, 1.5, 4.0, 3.0, 2.0, 1.6, 0, 0, 1.4, 1.48, 1.3, 1.7, 3.2, 1.4, 1.7])"

subsection \<open>Buildup effect\<close>

text \<open>
  \<^verbatim>\<open>BUI > 0 && BUIo[FUELTYPE] > 0\<close>: a comparison with \<^verbatim>\<open>undefined\<close> is false, so
  a fuel type with no entry takes the \<^verbatim>\<open>else\<close> branch.
\<close>

definition buildupEffect :: "fuel \<Rightarrow> real \<Rightarrow> real" where
  "buildupEffect ft bui =
     (case (BUIo ft, Q ft) of
        (Some buio, Some q) \<Rightarrow>
          if bui > 0 \<and> buio > 0 then exp (50 * ln q * (1 / bui - 1 / buio)) else 1
      | _ \<Rightarrow> 1)"

subsection \<open>Crown fraction burned\<close>

definition criticalSurfaceIntensity :: "real \<Rightarrow> real \<Rightarrow> real" where
  "criticalSurfaceIntensity fmc cbh = 0.001 * (cbh powr 1.5) * (460 + 25.9 * fmc) powr 1.5"

definition surfaceFireRateOfSpread :: "real \<Rightarrow> real \<Rightarrow> real" where
  "surfaceFireRateOfSpread csi sfc = csi / (300 * sfc)"

definition crownFractionBurned :: "real \<Rightarrow> real \<Rightarrow> real" where
  "crownFractionBurned ros rso = (if ros > rso then 1 - exp (- 0.23 * (ros - rso)) else 0)"

subsection \<open>Double precision\<close>

text \<open>
  The value of \<^verbatim>\<open>crownFractionBurned\<close> is within rounding distance of \<open>1\<close> for a large
  \<^verbatim>\<open>ROS - RSO\<close>, so what the source returns there is decided by the rounding of
  the 64-bit floating-point numbers it computes with. \<open>round_double\<close> is rounding
  to the nearest number of the binary64 format, a tie going to the even
  significand: a number is a multiple of \<open>2\<close> to the power of \<open>ulp_exponent\<close>, with a
  significand of \<open>53\<close> bits, and the exponent is at least \<open>- 1074\<close> (the subnormal
  numbers). Overflow to \<^verbatim>\<open>Infinity\<close> is not part of it. Each arithmetic operation
  of the source returns the rounded exact result; \<^verbatim>\<open>Math.exp\<close>, which the language
  leaves to the implementation, is taken to return the rounded exact value.
\<close>

definition round_even :: "real \<Rightarrow> int" where
  "round_even m =
     (let f = \<lfloor>m\<rfloor>
      in if m - of_int f < 1 / 2 then f
         else if m - of_int f > 1 / 2 then f + 1
         else if even f then f else f + 1)"

definition ulp_exponent :: "real \<Rightarrow> int" where
  "ulp_exponent x = max \<lfloor>log 2 \<bar>x\<bar>\<rfloor> (- 1022) - 52"

definition round_double :: "real \<Rightarrow> real" where
  "round_double x =
     (if x = 0 then 0
      else sgn x * (of_int (round_even (\<bar>x\<bar> / 2 powr of_int (ulp_exponent x)))
                    * 2 powr of_int (ulp_exponent x)))"

definition Math_exp :: "real \<Rightarrow> real" where
  "Math_exp x = round_double (exp x)"

text \<open>
  \<^verbatim>\<open>crownFractionBurned\<close> as the source evaluates it: the literal \<^verbatim>\<open>0.23\<close>, the
  difference, the product, the exponential and the last difference are rounded.
\<close>

definition crownFractionBurned_double :: "real \<Rightarrow> real \<Rightarrow> real" where
  "crownFractionBurned_double ros rso =
     (if ros > rso
      then round_double (1 - Math_exp (round_double (- round_double 0.23 * round_double (ros - rso))))
      else 0)"

subsection \<open>The C6 functions\<close>

definition intermediateSurfaceRateOfSpreadC6 :: "real \<Rightarrow> real" where
  "intermediateSurfaceRateOfSpreadC6 isi = 30 * (1 - exp (- 0.08 * isi)) powr 3.0"

definition surfaceRateOfSpreadC6 :: "real \<Rightarrow> real \<Rightarrow> real" where
  "surfaceRateOfSpreadC6 rsi bui = rsi * buildupEffect C6 bui"

definition crownRateOfSpreadC6 :: "real \<Rightarrow> real \<Rightarrow> real" where
  "crownRateOfSpreadC6 isi fmc =
     (let FMEavg = 0.778;
          tt = 1500 - 2.75 * fmc;
          H = 460 + 25.9 * fmc;
          FME = (1.5 - 0.00275 * fmc) powr 4.0 / (460 + 25.9 * fmc) * 1000
      in 60 * (1 - exp (- 0.0497 * isi)) * FME / FMEavg)"

definition crownFractionBurnedC6 :: "real \<Rightarrow> real \<Rightarrow> real \<Rightarrow> real" where
  "crownFractionBurnedC6 rsc rss rso =
     (if rsc > rss \<and> rss > rso then crownFractionBurned rss rso else 0)"

definition rateOfSpreadC6 :: "real \<Rightarrow> real \<Rightarrow> real \<Rightarrow> real" where
  "rateOfSpreadC6 rsc rss cfb = (if rsc > rss then rss + cfb * (rsc - rss) else rss)"

subsection \<open>The rate-of-spread engine\<close>

record InputParams =
  FUELTYPE :: fuel
  ISI :: real
  BUI :: real
  FMC :: real
  SFC :: real
  PC :: real
  PDF :: real
  CC :: real
  CBH :: real

record ROSResult =
  ROS :: real
  CFB :: real
  CSI :: real
  RSO :: real

text \<open>
  The local variables of \<^verbatim>\<open>rateOfSpreadExtended\<close> at one index, under the
  source's names (prefixed with \<open>v\<close>). \<^verbatim>\<open>RSC\<close> is \<^verbatim>\<open>NaN\<close> for every fuel type
  but C6, which is \<open>None\<close> here; it is read for C6 only.
\<close>

record ROSVars =
  vRSI :: real
  vCF :: real
  vCSI :: real
  vRSO :: real
  vRSC :: "real option"
  vRSS :: real
  vCFB :: real
  vROS :: real
  vconstrainedROS :: real

text \<open>
  The expression \<^verbatim>\<open>a[k] * Math.pow(1 - Math.exp(-b[k] * ISI[i]), c0[k])\<close> with
  \<^verbatim>\<open>k = names[ft]\<close>, which the source writes out for the simple types, for M3,
  for M4 and for the grass types. It is read at keys of the tables only.
\<close>

definition curve :: "fuel \<Rightarrow> real \<Rightarrow> real" where
  "curve ft isi = the (a_coef ft) * (1 - exp (- the (b_coef ft) * isi)) powr the (c0_coef ft)"

text \<open>The curing factor \<^verbatim>\<open>CF\<close> of the grass types.\<close>

definition curingFactor :: "real \<Rightarrow> real" where
  "curingFactor cc =
     (if cc < 58.8 then 0.005 * (exp (0.061 * cc) - 1) else 0.176 + 0.02 * (cc - 58.8))"

text \<open>
  \<^verbatim>\<open>rateOfSpreadExtended\<close> at one observation, statement by statement, in two
  parts. \<open>rateOfSpreadTail\<close> is the second part: the statements from \<^verbatim>\<open>CF\<close> on,
  which read the value of \<^verbatim>\<open>RSI\<close> left by the mixedwood statements.
\<close>

definition rateOfSpreadTail :: "InputParams \<Rightarrow> real \<Rightarrow> ROSVars" where
  "rateOfSpreadTail p RSI3 =
    (let ft = FUELTYPE p;
         CF = (if ft \<in> set [O1A, O1B] then curingFactor (CC p) else - 99);
         RSI4 = (if ft \<in> set [O1A, O1B] then curve ft (ISI p) * CF else RSI3);
         CSI = criticalSurfaceIntensity (FMC p) (CBH p);
         RSO = surfaceFireRateOfSpread CSI (SFC p);
         RSI5 = (if ft = C6 then intermediateSurfaceRateOfSpreadC6 (ISI p) else RSI4);
         RSC = (if ft = C6 then Some (crownRateOfSpreadC6 (ISI p) (FMC p)) else None);
         RSS = (if ft = C6 then surfaceRateOfSpreadC6 RSI5 (BUI p)
                else buildupEffect ft (BUI p) * RSI5);
         CFB = (if ft = C6 then crownFractionBurnedC6 (the RSC) RSS RSO
                else crownFractionBurned RSS RSO);
         ROS = (if ft = C6 then rateOfSpreadC6 (the RSC) RSS CFB else RSS);
         constrainedROS = (if ROS \<le> 0 then 0.000001 else ROS)
     in \<lparr>vRSI = RSI5, vCF = CF, vCSI = CSI, vRSO = RSO, vRSC = RSC, vRSS = RSS,
         vCFB = CFB, vROS = ROS, vconstrainedROS = constrainedROS\<rparr>)"

text \<open>
  The first part: \<^verbatim>\<open>RSI\<close> of the simple and the mixedwood types. The recursive
  calls \<^verbatim>\<open>rateOfSpread({FUELTYPE: Array(n).fill("C2"), ISI, BUI: NoBUI, ...})[i]\<close>
  are calls at the same observation with the fuel type replaced and \<^verbatim>\<open>BUI = -1\<close>;
  what they contribute is the constrained \<^verbatim>\<open>ROS\<close>.
\<close>

function rateOfSpreadVars :: "InputParams \<Rightarrow> ROSVars" where
  "rateOfSpreadVars p =
    (let ft = FUELTYPE p;
         NoBUI = - 1;
         RSI1 =
           (if ft \<in> set [C1, C2, C3, C4, C5, C7, D1, S1, S2, S3] then curve ft (ISI p)
            else if ft = M1 then
              (PC p / 100) * vconstrainedROS (rateOfSpreadVars (p\<lparr>FUELTYPE := C2, BUI := NoBUI\<rparr>))
              + ((100 - PC p) / 100)
                * vconstrainedROS (rateOfSpreadVars (p\<lparr>FUELTYPE := D1, BUI := NoBUI\<rparr>))
            else if ft = M2 then
              (PC p / 100) * vconstrainedROS (rateOfSpreadVars (p\<lparr>FUELTYPE := C2, BUI := NoBUI\<rparr>))
              + 0.2 * ((100 - PC p) / 100)
                * vconstrainedROS (rateOfSpreadVars (p\<lparr>FUELTYPE := D1, BUI := NoBUI\<rparr>))
            else - 1);
         RSI_m3 = (if ft = M3 then curve M3 (ISI p) else RSI1);
         RSI2 =
           (if ft = M3 then
              PDF p / 100 * RSI_m3
              + (1 - PDF p / 100)
                * vconstrainedROS (rateOfSpreadVars (p\<lparr>FUELTYPE := D1, BUI := NoBUI\<rparr>))
            else RSI1);
         RSI_m4 = (if ft = M4 then curve M4 (ISI p) else RSI2);
         RSI3 =
           (if ft = M4 then
              PDF p / 100 * RSI_m4
              + 0.2 * (1 - PDF p / 100)
                * vconstrainedROS (rateOfSpreadVars (p\<lparr>FUELTYPE := D1, BUI := NoBUI\<rparr>))
            else RSI2)
     in rateOfSpreadTail p RSI3)"
  by pat_completeness auto
termination
  by (relation "measure (\<lambda>p. if FUELTYPE p \<in> {M1, M2, M3, M4} then 1 else 0)") auto

declare rateOfSpreadVars.simps [simp del]

definition rateOfSpreadExtended :: "InputParams \<Rightarrow> ROSResult" where
  "rateOfSpreadExtended p =
     (let v = rateOfSpreadVars p
      in \<lparr>ROS = vconstrainedROS v, CFB = vCFB v, CSI = vCSI v, RSO = vRSO v\<rparr>)"

definition rateOfSpread :: "InputParams \<Rightarrow> real" where
  "rateOfSpread p = ROS (rateOfSpreadExtended p)"

subsection \<open>The simple fuel types in double precision\<close>

text \<open>
  What \<^verbatim>\<open>rateOfSpreadExtended\<close> computes for a simple fuel type (C1 to C5, C7, D1,
  S1 to S3), in double precision: \<^verbatim>\<open>RSI\<close> is the curve, \<^verbatim>\<open>RSS\<close> is
  \<^verbatim>\<open>buildupEffect(FUELTYPE[i], BUI[i]) * rsi\<close>, \<^verbatim>\<open>ROS\<close> is \<^verbatim>\<open>RSS\<close>, and the floor is
  applied. \<^verbatim>\<open>Math.pow\<close> and \<^verbatim>\<open>Math.log\<close> return the rounded exact value, as
  \<^verbatim>\<open>Math.exp\<close> does; the literals of the tables are rounded.
\<close>

definition Math_pow :: "real \<Rightarrow> real \<Rightarrow> real" where
  "Math_pow x y = round_double (x powr y)"

definition Math_log :: "real \<Rightarrow> real" where
  "Math_log x = round_double (ln x)"

definition buildupEffect_double :: "fuel \<Rightarrow> real \<Rightarrow> real" where
  "buildupEffect_double ft bui =
     (case (BUIo ft, Q ft) of
        (Some buio, Some q) \<Rightarrow>
          if bui > 0 \<and> buio > 0
          then Math_exp (round_double (round_double (50 * Math_log (round_double q))
                 * round_double (round_double (1 / bui) - round_double (1 / buio))))
          else 1
      | _ \<Rightarrow> 1)"

definition curve_double :: "fuel \<Rightarrow> real \<Rightarrow> real" where
  "curve_double ft isi =
     round_double (round_double (the (a_coef ft))
       * Math_pow (round_double (1 - Math_exp (round_double (- round_double (the (b_coef ft)) * isi))))
           (round_double (the (c0_coef ft))))"

definition simpleRateOfSpread_double :: "fuel \<Rightarrow> real \<Rightarrow> real \<Rightarrow> real" where
  "simpleRateOfSpread_double ft isi bui =
     (let RSI = curve_double ft isi;
          RSS = round_double (buildupEffect_double ft bui * RSI);
          ROS = RSS
      in if ROS \<le> 0 then round_double 0.000001 else ROS)"

subsection \<open>Initial spread index\<close>

text \<open>The parameter \<^verbatim>\<open>fbpMod\<close> has the default \<^verbatim>\<open>false\<close> in the source.\<close>

definition initialSpreadIndex :: "real \<Rightarrow> real \<Rightarrow> bool \<Rightarrow> real" where
  "initialSpreadIndex ffmc ws fbpMod =
     (let FFMC_COEFFICIENT = 59.5;
          fm = FFMC_COEFFICIENT * (101 - ffmc) / (59.5 + ffmc);
          fW = (if ws \<ge> 40 \<and> fbpMod then 12 * (1 - exp (- 0.0818 * (ws - 28)))
                else exp (0.05039 * ws));
          fF = 91.9 * exp (- 0.1386 * fm) * (1 + fm powr 5.31 / 49300000);
          isi = 0.208 * fW * fF
      in isi)"

subsection \<open>Slope adjustment\<close>

text \<open>
  One observation of \<^verbatim>\<open>slopeAdjustment\<close>: index \<^verbatim>\<open>i\<close> of its fourteen arrays.
\<close>

record SlopeInputs = InputParams +
  FFMC :: real
  WS :: real
  WAZ :: real
  GS :: real
  SAZ :: real

record SlopeAdjustmentResult =
  WSV :: "real option"
  RAZ :: "real option"

text \<open>\<^verbatim>\<open>SF\<close>, \<^verbatim>\<open>ISZ\<close> at one observation.\<close>

definition SF_at :: "SlopeInputs \<Rightarrow> real" where
  "SF_at ob = (if GS ob \<ge> 70 then 10 else exp (3.533 * (GS ob / 100) powr 1.2))"

definition ISZ_at :: "SlopeInputs \<Rightarrow> real" where
  "ISZ_at ob = initialSpreadIndex (FFMC ob) 0 False"

text \<open>
  The argument of the calls \<^verbatim>\<open>rateOfSpread({FUELTYPE: ..., ISI: ISZ, BUI: NoBUI, FMC, SFC,
  PC, PDF: ..., CC, CBH})\<close> at one observation: the fuel type and \<^verbatim>\<open>PDF\<close> are
  what the call passes at this index.
\<close>

definition zeroWindParams :: "SlopeInputs \<Rightarrow> fuel \<Rightarrow> real \<Rightarrow> InputParams" where
  "zeroWindParams ob ft pdf =
     \<lparr>FUELTYPE = ft, ISI = ISZ_at ob, BUI = - 1, FMC = FMC ob, SFC = SFC ob, PC = PC ob,
      PDF = pdf, CC = CC ob, CBH = CBH ob\<rparr>"

text \<open>\<^verbatim>\<open>RSZ\<close> and \<^verbatim>\<open>RSF\<close> at one observation.\<close>

definition RSZ_at :: "SlopeInputs \<Rightarrow> real" where
  "RSZ_at ob = rateOfSpread (zeroWindParams ob (FUELTYPE ob) (PDF ob))"

definition RSF_at :: "SlopeInputs \<Rightarrow> real" where
  "RSF_at ob = RSZ_at ob * SF_at ob"

text \<open>
  The inversion the source writes out for every family of fuel types:
  \<^verbatim>\<open>x = 1 - Math.pow(rsf / A, 1 / C)\<close>, then
  \<^verbatim>\<open>x >= 0.01 ? Math.log(x) / -B : Math.log(0.01) / -B\<close>.
\<close>

definition invertCurve :: "real \<Rightarrow> real \<Rightarrow> real \<Rightarrow> real \<Rightarrow> real" where
  "invertCurve A B C rsf =
     (let expValue = 1 - (rsf / A) powr (1 / C)
      in if expValue \<ge> 0.01 then ln expValue / - B else ln 0.01 / - B)"

text \<open>
  The callbacks of the successive \<^verbatim>\<open>ISF = ISF.map((isf, i) => ...)\<close>, at one
  observation. In the mixedwood callbacks \<^verbatim>\<open>RSF_C2[i]\<close>, \<^verbatim>\<open>RSF_D1[i]\<close>,
  \<^verbatim>\<open>RSF_M3[i]\<close>, \<^verbatim>\<open>RSF_M4[i]\<close> are read at indices of that fuel type only, where
  the mapped fuel type is the replacement; for M3 and M4 the calls pass
  \<^verbatim>\<open>PDF100\<close>.
\<close>

definition ISF_basic :: "SlopeInputs \<Rightarrow> real \<Rightarrow> real" where
  "ISF_basic ob isf =
     (if FUELTYPE ob \<in> set [C1, C2, C3, C4, C5, C6, C7, D1, S1, S2, S3] then
        invertCurve (the (a_coef (FUELTYPE ob))) (the (b_coef (FUELTYPE ob)))
          (the (c0_coef (FUELTYPE ob))) (RSF_at ob)
      else isf)"

definition ISF_M1M2 :: "SlopeInputs \<Rightarrow> real \<Rightarrow> real" where
  "ISF_M1M2 ob isf =
     (if FUELTYPE ob = M1 \<or> FUELTYPE ob = M2 then
        (let RSF_C2 = rateOfSpread (zeroWindParams ob C2 (PDF ob)) * SF_at ob;
             RSF_D1 = rateOfSpread (zeroWindParams ob D1 (PDF ob)) * SF_at ob;
             ISF_C2 = invertCurve (the (a_coef C2)) (the (b_coef C2)) (the (c0_coef C2)) RSF_C2;
             ISF_D1 = invertCurve (the (a_coef D1)) (the (b_coef D1)) (the (c0_coef D1)) RSF_D1
         in PC ob / 100 * ISF_C2 + (1 - PC ob / 100) * ISF_D1)
      else isf)"

definition ISF_M3 :: "SlopeInputs \<Rightarrow> real \<Rightarrow> real" where
  "ISF_M3 ob isf =
     (if FUELTYPE ob = M3 then
        (let RSF_M3 = rateOfSpread (zeroWindParams ob M3 100) * SF_at ob;
             RSF_D1 = rateOfSpread (zeroWindParams ob D1 100) * SF_at ob;
             ISF_M3 = invertCurve (the (a_coef M3)) (the (b_coef M3)) (the (c0_coef M3)) RSF_M3;
             ISF_D1 = invertCurve (the (a_coef D1)) (the (b_coef D1)) (the (c0_coef D1)) RSF_D1
         in PDF ob / 100 * ISF_M3 + (1 - PDF ob / 100) * ISF_D1)
      else isf)"

definition ISF_M4 :: "SlopeInputs \<Rightarrow> real \<Rightarrow> real" where
  "ISF_M4 ob isf =
     (if FUELTYPE ob = M4 then
        (let RSF_M4 = rateOfSpread (zeroWindParams ob M4 100) * SF_at ob;
             RSF_D1 = rateOfSpread (zeroWindParams ob D1 100) * SF_at ob;
             ISF_M4 = invertCurve (the (a_coef M4)) (the (b_coef M4)) (the (c0_coef M4)) RSF_M4;
             ISF_D1 = invertCurve (the (a_coef D1)) (the (b_coef D1)) (the (c0_coef D1)) RSF_D1
         in PDF ob / 100 * ISF_M4 + (1 - PDF ob / 100) * ISF_D1)
      else isf)"

definition CF_at :: "SlopeInputs \<Rightarrow> real" where
  "CF_at ob =
     (if FUELTYPE ob = O1A \<or> FUELTYPE ob = O1B then
        (if CC ob < 58.8 then 0.005 * (exp (0.061 * CC ob) - 1) else 0.176 + 0.02 * (CC ob - 58.8))
      else - 99)"

definition ISF_grass :: "SlopeInputs \<Rightarrow> real \<Rightarrow> real" where
  "ISF_grass ob isf =
     (if FUELTYPE ob = O1A \<or> FUELTYPE ob = O1B then
        invertCurve (CF_at ob * the (a_coef (FUELTYPE ob))) (the (b_coef (FUELTYPE ob)))
          (the (c0_coef (FUELTYPE ob))) (RSF_at ob)
      else isf)"

text \<open>
  The value of \<^verbatim>\<open>ISF[i]\<close> after the last of these statements: the callbacks in
  the order of the source, from the initial \<^verbatim>\<open>-99\<close>.
\<close>

definition ISF_at :: "SlopeInputs \<Rightarrow> real" where
  "ISF_at ob = ISF_grass ob (ISF_M4 ob (ISF_M3 ob (ISF_M1M2 ob (ISF_basic ob (- 99)))))"

text \<open>
  The wind inversion: \<^verbatim>\<open>WSE\<close> from \<^verbatim>\<open>ISF[i]\<close> and \<^verbatim>\<open>fF[i]\<close>, and the callback of
  \<^verbatim>\<open>adjustedWSE\<close>.
\<close>

definition WSE_at :: "real \<Rightarrow> real \<Rightarrow> real" where
  "WSE_at isf ff = 1 / 0.05039 * ln (isf / (0.208 * ff))"

definition adjustedWSE_at :: "real \<Rightarrow> real \<Rightarrow> real" where
  "adjustedWSE_at isf ff =
     (let wse = WSE_at isf ff
      in if wse > 40 \<and> isf < 0.999 * 2.496 * ff then
           28 - (1 / 0.0818 * ln (1 - isf / (2.496 * ff)))
         else if wse > 40 \<and> isf \<ge> 0.999 * 2.496 * ff then 112.45
         else wse)"

text \<open>
  The statements after the test for \<^verbatim>\<open>"NF"\<close> and \<^verbatim>\<open>"WA"\<close>, at one observation
  with its final \<^verbatim>\<open>ISF[i]\<close>.
\<close>

definition windVector :: "SlopeInputs \<Rightarrow> real \<Rightarrow> SlopeAdjustmentResult" where
  "windVector ob isf =
     (let m = 101 - FFMC ob;
          fF = 91.9 * exp (- 0.1386 * m) * (1 + m powr 5.31 / 49300000);
          adjustedWSE = adjustedWSE_at isf fF;
          WSX = WS ob * sin (WAZ ob) + adjustedWSE * sin (SAZ ob);
          WSY = WS ob * cos (WAZ ob) + adjustedWSE * cos (SAZ ob);
          WSV = sqrt (WSX * WSX + WSY * WSY);
          RAZ = arccos (WSY / WSV);
          adjustedRAZ = (if WSX < 0 then 2 * pi - RAZ else RAZ)
      in \<lparr>WSV = Some WSV, RAZ = Some adjustedRAZ\<rparr>)"

text \<open>
  \<^verbatim>\<open>slopeAdjustment\<close> on a batch. The tests \<^verbatim>\<open>FUELTYPE.includes(...)\<close> are tests
  on the whole batch, as in the source.
\<close>

definition slopeAdjustment :: "SlopeInputs list \<Rightarrow> SlopeAdjustmentResult list" where
  "slopeAdjustment obs =
     (let FT = map FUELTYPE obs;
          ISF0 = map (\<lambda>_. - 99) obs;
          ISF1 = map2 ISF_basic obs ISF0;
          ISF2 = (if M1 \<in> set FT \<or> M2 \<in> set FT then map2 ISF_M1M2 obs ISF1 else ISF1);
          ISF3 = (if M3 \<in> set FT then map2 ISF_M3 obs ISF2 else ISF2);
          ISF4 = (if M4 \<in> set FT then map2 ISF_M4 obs ISF3 else ISF3);
          ISF5 = map2 ISF_grass obs ISF4
      in if NF \<in> set FT \<or> WA \<in> set FT then map (\<lambda>_. \<lparr>WSV = None, RAZ = None\<rparr>) obs
         else map2 windVector obs ISF5)"

text \<open>
  \<^verbatim>\<open>Slopecalc\<close>. The parameter \<^verbatim>\<open>output\<close> has the default \<^verbatim>\<open>"RAZ"\<close>. The source
  throws an \<^verbatim>\<open>Error\<close> for an invalid \<^verbatim>\<open>output\<close>. The statement
  \<^verbatim>\<open>values[0][output as keyof SlopeAdjustmentResult] || null;\<close> discards its value,
  but it reads a property of \<^verbatim>\<open>values[0]\<close>, which is \<^verbatim>\<open>undefined\<close> for an empty
  batch: JavaScript throws a \<^verbatim>\<open>TypeError\<close> there.
\<close>

datatype error = InvalidOutput string | TypeError

definition Slopecalc :: "SlopeInputs list \<Rightarrow> string \<Rightarrow> error + SlopeAdjustmentResult list" where
  "Slopecalc obs output =
     (let validOutTypes = [''RAZ'', ''WAZ'', ''WSV'']
      in if output \<notin> set validOutTypes then Inl (InvalidOutput output)
         else (let values = slopeAdjustment obs
               in case values of [] \<Rightarrow> Inl TypeError | v # vs \<Rightarrow> Inr values))"

section \<open>Properties\<close>

subsection \<open>The coefficient tables\<close>

lemma dom_tables:
  "dom BUIo = set d_keys" "dom Q = set d_keys" "dom a_coef = set d_keys"
  "dom b_coef = set d_keys" "dom c0_coef = set d_keys"
  unfolding BUIo_def Q_def a_coef_def b_coef_def c0_coef_def
  by (rule dom_map_of_zip, simp add: d_keys_def)+

lemma tables_defined:
  assumes "ft \<in> set d_keys"
  shows "BUIo ft \<noteq> None" "Q ft \<noteq> None" "a_coef ft \<noteq> None" "b_coef ft \<noteq> None"
    "c0_coef ft \<noteq> None"
  using assms dom_tables by blast+

subsection \<open>Buildup effect\<close>

lemma buildupEffect_Some:
  "BUIo ft = Some buio \<Longrightarrow> Q ft = Some q \<Longrightarrow>
   buildupEffect ft bui =
     (if bui \<le> 0 \<or> buio \<le> 0 then 1 else exp (50 * ln q * (1 / bui - 1 / buio)))"
  by (simp add: buildupEffect_def)

lemma buildupEffect_nonpos: "bui \<le> 0 \<Longrightarrow> buildupEffect ft bui = 1"
  by (simp add: buildupEffect_def split: option.split)

lemma buildupEffect_pos: "0 < buildupEffect ft bui"
  by (simp add: buildupEffect_def split: option.split)

text \<open>
  Claim C4. For every fuel type and every \<open>BUI \<le> 0\<close>, in particular for the
  sentinel \<open>- 1\<close> that disables the buildup effect, \<open>buildupEffect\<close> returns \<open>1\<close>.
  For each of the seventeen fuel types of the tables it returns \<open>1\<close> when
  \<open>BUI \<le> 0\<close> or the fuel type's \<open>BUIo \<le> 0\<close>, and
  \<open>exp (50 * ln Q * (1 / BUI - 1 / BUIo))\<close> otherwise, with that fuel type's \<open>Q\<close>
  and \<open>BUIo\<close>.
\<close>

theorem buildupEffect_rule:
  "(bui \<le> 0 \<longrightarrow> buildupEffect ft bui = 1) \<and> buildupEffect ft (- 1) = 1 \<and>
   (ft \<in> set d_keys \<longrightarrow>
      BUIo ft \<noteq> None \<and> Q ft \<noteq> None \<and>
      buildupEffect ft bui =
        (if bui \<le> 0 \<or> the (BUIo ft) \<le> 0 then 1
         else exp (50 * ln (the (Q ft)) * (1 / bui - 1 / the (BUIo ft)))))"
proof (intro conjI impI)
  show "buildupEffect ft bui = 1" if "bui \<le> 0"
    using that by (rule buildupEffect_nonpos)
  show "buildupEffect ft (- 1) = 1"
    by (simp add: buildupEffect_nonpos)
  assume k: "ft \<in> set d_keys"
  show "BUIo ft \<noteq> None" "Q ft \<noteq> None"
    using k by (rule tables_defined)+
  then obtain buio q where s: "BUIo ft = Some buio" "Q ft = Some q"
    by auto
  show "buildupEffect ft bui =
        (if bui \<le> 0 \<or> the (BUIo ft) \<le> 0 then 1
         else exp (50 * ln (the (Q ft)) * (1 / bui - 1 / the (BUIo ft))))"
    using buildupEffect_Some [OF s] by (simp add: s)
qed

theorem buildupEffect_rule_witness:
  "C2 \<in> set d_keys \<and> buildupEffect C2 60 = exp (50 * ln 0.7 * (1 / 60 - 1 / 64)) \<and>
   buildupEffect C2 (- 1) = 1 \<and> buildupEffect O1A 60 = 1"
  using buildupEffect_rule [of 60 C2] buildupEffect_rule [of 60 O1A]
  by (simp add: d_keys_def BUIo_def Q_def)

subsection \<open>Unfolding the engine\<close>

text \<open>The first part, by class of fuel type.\<close>

lemma rateOfSpreadVars_simple:
  "FUELTYPE p \<in> set [C1, C2, C3, C4, C5, C7, D1, S1, S2, S3] \<Longrightarrow>
   rateOfSpreadVars p = rateOfSpreadTail p (curve (FUELTYPE p) (ISI p))"
  by (subst rateOfSpreadVars.simps) (auto simp: Let_def)

lemma rateOfSpreadVars_other:
  "FUELTYPE p \<in> set [C6, O1A, O1B, NF, WA, Other] \<Longrightarrow>
   rateOfSpreadVars p = rateOfSpreadTail p (- 1)"
  by (subst rateOfSpreadVars.simps) (auto simp: Let_def)

lemma rateOfSpreadVars_M1:
  "FUELTYPE p = M1 \<Longrightarrow>
   rateOfSpreadVars p = rateOfSpreadTail p
     ((PC p / 100) * vconstrainedROS (rateOfSpreadVars (p\<lparr>FUELTYPE := C2, BUI := - 1\<rparr>))
      + ((100 - PC p) / 100) * vconstrainedROS (rateOfSpreadVars (p\<lparr>FUELTYPE := D1, BUI := - 1\<rparr>)))"
  by (subst rateOfSpreadVars.simps) (simp add: Let_def)




text \<open>The values the second part computes.\<close>

lemma tail_plain:
  "FUELTYPE p \<notin> {C6, O1A, O1B} \<Longrightarrow>
   vRSI (rateOfSpreadTail p r) = r \<and>
   vRSS (rateOfSpreadTail p r) = buildupEffect (FUELTYPE p) (BUI p) * r \<and>
   vROS (rateOfSpreadTail p r) = buildupEffect (FUELTYPE p) (BUI p) * r"
  by (simp add: rateOfSpreadTail_def Let_def)


lemma tail_C6:
  "FUELTYPE p = C6 \<Longrightarrow>
   vRSI (rateOfSpreadTail p r) = intermediateSurfaceRateOfSpreadC6 (ISI p) \<and>
   vRSC (rateOfSpreadTail p r) = Some (crownRateOfSpreadC6 (ISI p) (FMC p)) \<and>
   vRSS (rateOfSpreadTail p r) = surfaceRateOfSpreadC6 (intermediateSurfaceRateOfSpreadC6 (ISI p)) (BUI p) \<and>
   vCFB (rateOfSpreadTail p r) =
     crownFractionBurnedC6 (crownRateOfSpreadC6 (ISI p) (FMC p))
       (surfaceRateOfSpreadC6 (intermediateSurfaceRateOfSpreadC6 (ISI p)) (BUI p))
       (surfaceFireRateOfSpread (criticalSurfaceIntensity (FMC p) (CBH p)) (SFC p)) \<and>
   vROS (rateOfSpreadTail p r) =
     rateOfSpreadC6 (crownRateOfSpreadC6 (ISI p) (FMC p))
       (surfaceRateOfSpreadC6 (intermediateSurfaceRateOfSpreadC6 (ISI p)) (BUI p))
       (vCFB (rateOfSpreadTail p r))"
  by (simp add: rateOfSpreadTail_def Let_def)

lemma tail_constrained:
  "vconstrainedROS (rateOfSpreadTail p r) =
     (if vROS (rateOfSpreadTail p r) \<le> 0 then 0.000001 else vROS (rateOfSpreadTail p r))"
  by (simp add: rateOfSpreadTail_def Let_def)

lemma rateOfSpreadVars_is_tail: "\<exists>r. rateOfSpreadVars p = rateOfSpreadTail p r"
  by (subst rateOfSpreadVars.simps) (simp only: Let_def, blast)

lemma constrained_pos: "0 < vconstrainedROS (rateOfSpreadVars p)"
proof -
  obtain r where "rateOfSpreadVars p = rateOfSpreadTail p r"
    using rateOfSpreadVars_is_tail by blast
  then show ?thesis
    by (simp add: tail_constrained)
qed

subsection \<open>Rounding to double precision\<close>

lemma round_even_bounds: "m - 1 / 2 \<le> of_int (round_even m)" "of_int (round_even m) \<le> m + 1 / 2"
  unfolding round_even_def Let_def by (auto; linarith)+

lemma round_even_of_int [simp]: "round_even (of_int k) = k"
  by (simp add: round_even_def)

lemma round_even_mono:
  assumes "m1 \<le> m2"
  shows "round_even m1 \<le> round_even m2"
proof (cases "\<lfloor>m1\<rfloor> = \<lfloor>m2\<rfloor>")
  case True
  then show ?thesis
    using assms unfolding round_even_def Let_def by (auto split: if_splits)
next
  case False
  then have "\<lfloor>m1\<rfloor> + 1 \<le> \<lfloor>m2\<rfloor>"
    using floor_mono [OF assms] by linarith
  moreover have "round_even m1 \<le> \<lfloor>m1\<rfloor> + 1" "\<lfloor>m2\<rfloor> \<le> round_even m2"
    unfolding round_even_def Let_def by auto
  ultimately show ?thesis by linarith
qed

lemma round_even_ge: "of_int k \<le> m \<Longrightarrow> k \<le> round_even m"
  using round_even_mono [of "of_int k" m] by simp

lemma round_even_le: "m \<le> of_int k \<Longrightarrow> round_even m \<le> k"
  using round_even_mono [of m "of_int k"] by simp


lemma floor_log2_bounds:
  fixes x :: real
  assumes "0 < x"
  shows "2 powr of_int \<lfloor>log 2 x\<rfloor> \<le> x" "x < 2 powr (of_int \<lfloor>log 2 x\<rfloor> + 1)"
proof -
  have "(2 :: real) powr of_int \<lfloor>log 2 x\<rfloor> \<le> 2 powr log 2 x"
    by (intro powr_mono) simp_all
  also have "\<dots> = x"
    using assms by simp
  finally show "2 powr of_int \<lfloor>log 2 x\<rfloor> \<le> x" .
  have "log 2 x < of_int \<lfloor>log 2 x\<rfloor> + 1"
    by linarith
  then have "2 powr log 2 x < (2 :: real) powr (of_int \<lfloor>log 2 x\<rfloor> + 1)"
    by (intro powr_less_mono) simp_all
  then show "x < 2 powr (of_int \<lfloor>log 2 x\<rfloor> + 1)"
    using assms by simp
qed

lemma floor_log2_eq:
  fixes x :: real
  assumes "2 powr of_int k \<le> x" "x < 2 powr (of_int k + 1)"
  shows "\<lfloor>log 2 x\<rfloor> = k"
proof -
  have pos: "0 < x"
    using assms(1) by (rule less_le_trans [rotated]) simp
  have "of_int k \<le> log 2 x"
    using assms(1) pos le_log_iff [of 2 x "of_int k"] by simp
  moreover have "log 2 x < of_int k + 1"
    using assms(2) pos log_less_iff [of 2 x "of_int k + 1"] by simp
  ultimately show ?thesis
    by linarith
qed

lemma ulp_exponent_minus [simp]: "ulp_exponent (- x) = ulp_exponent x"
  by (simp add: ulp_exponent_def)

lemma ulp_exponent_mono:
  assumes "0 < x" "x \<le> y"
  shows "ulp_exponent x \<le> ulp_exponent y"
proof -
  have "log 2 x \<le> log 2 y"
    using assms by simp
  then have "\<lfloor>log 2 x\<rfloor> \<le> \<lfloor>log 2 y\<rfloor>"
    by (rule floor_mono)
  then show ?thesis
    using assms by (simp add: ulp_exponent_def)
qed

lemma below_next_binade:
  assumes "0 < x"
  shows "x < 2 powr (of_int (ulp_exponent x) + 53)"
proof -
  have "x < 2 powr (of_int \<lfloor>log 2 x\<rfloor> + 1)"
    using assms by (rule floor_log2_bounds)
  also have "\<dots> \<le> 2 powr (of_int (ulp_exponent x) + 53)"
    using assms by (intro powr_mono) (simp_all add: ulp_exponent_def)
  finally show ?thesis .
qed

lemma normal_lower:
  assumes "0 < x" "- 1074 < ulp_exponent x"
  shows "2 powr (of_int (ulp_exponent x) + 52) \<le> x"
proof -
  have "ulp_exponent x = \<lfloor>log 2 x\<rfloor> - 52"
    using assms by (simp add: ulp_exponent_def max_def split: if_splits)
  then have "(2 :: real) powr (of_int (ulp_exponent x) + 52) = 2 powr of_int \<lfloor>log 2 x\<rfloor>"
    by simp
  then show ?thesis
    using floor_log2_bounds(1) [OF assms(1)] by simp
qed

lemma ulp_exponent_normal:
  assumes "2 powr of_int k \<le> x" "x < 2 powr (of_int k + 1)" "- 1022 \<le> k"
  shows "ulp_exponent x = k - 52"
proof -
  have pos: "0 < x"
    using assms(1) by (rule less_le_trans [rotated]) simp
  have "\<lfloor>log 2 x\<rfloor> = k"
    using assms(1,2) by (rule floor_log2_eq)
  then show ?thesis
    using pos assms(3) by (simp add: ulp_exponent_def)
qed

text \<open>the rounded value of a positive number\<close>

lemma round_double_pos:
  assumes "0 < x"
  shows "round_double x
       = of_int (round_even (x / 2 powr of_int (ulp_exponent x))) * 2 powr of_int (ulp_exponent x)"
  using assms by (simp add: round_double_def)

lemma round_double_0 [simp]: "round_double 0 = 0"
  by (simp add: round_double_def)

lemma round_double_minus: "round_double (- x) = - round_double x"
  by (simp add: round_double_def sgn_minus)

lemma round_double_nonneg:
  assumes "0 \<le> x"
  shows "0 \<le> round_double x"
proof (cases "x = 0")
  case False
  then have pos: "0 < x" using assms by simp
  have "0 \<le> x / 2 powr of_int (ulp_exponent x)"
    using pos by simp
  then have "0 \<le> round_even (x / 2 powr of_int (ulp_exponent x))"
    using round_even_ge [of 0] by simp
  then show ?thesis
    by (simp add: round_double_pos [OF pos])
qed simp

lemma round_double_mono_pos:
  assumes "0 < x" "x \<le> y"
  shows "round_double x \<le> round_double y"
proof -
  have ypos: "0 < y" using assms by linarith
  let ?ex = "ulp_exponent x" and ?ey = "ulp_exponent y"
  have e: "?ex \<le> ?ey"
    using assms by (rule ulp_exponent_mono)
  show ?thesis
  proof (cases "?ex = ?ey")
    case True
    have "x / 2 powr of_int ?ex \<le> y / 2 powr of_int ?ex"
      using assms(2) by (simp add: divide_right_mono)
    then have "round_even (x / 2 powr of_int ?ex) \<le> round_even (y / 2 powr of_int ?ex)"
      by (rule round_even_mono)
    then have "real_of_int (round_even (x / 2 powr of_int ?ex)) * 2 powr of_int ?ex
        \<le> real_of_int (round_even (y / 2 powr of_int ?ex)) * 2 powr of_int ?ex"
      by (intro mult_right_mono) simp_all
    then show ?thesis
      using True by (simp add: round_double_pos [OF assms(1)] round_double_pos [OF ypos])
  next
    case False
    then have lt: "?ex + 1 \<le> ?ey" using e by linarith
    have "x / 2 powr of_int ?ex \<le> 2 powr 53"
    proof -
      have "x < 2 powr (of_int ?ex + 53)"
        using assms(1) by (rule below_next_binade)
      then have "x < 2 powr of_int ?ex * 2 powr 53"
        by (simp add: powr_add)
      then show ?thesis
        by (simp add: field_simps)
    qed
    then have "x / 2 powr of_int ?ex \<le> of_int (2 ^ 53)"
      by simp
    then have "round_even (x / 2 powr of_int ?ex) \<le> 2 ^ 53"
      by (rule round_even_le)
    then have "(of_int (round_even (x / 2 powr of_int ?ex)) :: real) \<le> 2 powr 53"
      by (metis of_int_le_iff of_int_numeral of_int_power powr_numeral zero_le_numeral)
    then have "real_of_int (round_even (x / 2 powr of_int ?ex)) * 2 powr of_int ?ex
        \<le> 2 powr 53 * 2 powr of_int ?ex"
      by (intro mult_right_mono) simp_all
    then have upper: "round_double x \<le> 2 powr (of_int ?ex + 53)"
      by (simp add: round_double_pos [OF assms(1)] powr_add mult.commute)
    have "- 1074 \<le> ?ex"
      by (simp add: ulp_exponent_def)
    then have n: "- 1074 < ?ey" using lt by linarith
    have "2 powr (of_int ?ey + 52) \<le> y"
      using ypos n by (rule normal_lower)
    then have "2 powr 52 * 2 powr of_int ?ey \<le> y"
      by (simp add: powr_add mult.commute)
    then have "2 powr 52 \<le> y / 2 powr of_int ?ey"
      by (simp add: field_simps)
    then have "of_int (2 ^ 52) \<le> y / 2 powr of_int ?ey"
      by simp
    then have "2 ^ 52 \<le> round_even (y / 2 powr of_int ?ey)"
      by (rule round_even_ge)
    then have "2 powr 52 \<le> (of_int (round_even (y / 2 powr of_int ?ey)) :: real)"
      by (metis of_int_le_iff of_int_numeral of_int_power powr_numeral zero_le_numeral)
    then have "2 powr 52 * 2 powr of_int ?ey
        \<le> real_of_int (round_even (y / 2 powr of_int ?ey)) * 2 powr of_int ?ey"
      by (intro mult_right_mono) simp_all
    then have lower: "2 powr (of_int ?ey + 52) \<le> round_double y"
      by (simp add: round_double_pos [OF ypos] powr_add mult.commute)
    have "2 powr (of_int ?ex + 53) \<le> (2 :: real) powr (of_int ?ey + 52)"
      using lt by (intro powr_mono) simp_all
    then show ?thesis
      using upper lower by linarith
  qed
qed

lemma round_double_mono:
  assumes "x \<le> y"
  shows "round_double x \<le> round_double y"
proof -
  consider (a) "0 < x" | (b) "x \<le> 0" "0 \<le> y" | (c) "y < 0"
    using assms by linarith
  then show ?thesis
  proof cases
    case a
    then show ?thesis using assms by (rule round_double_mono_pos)
  next
    case b
    have "0 \<le> round_double (- x)"
      using b(1) by (intro round_double_nonneg) simp
    then have "round_double x \<le> 0"
      by (simp add: round_double_minus)
    moreover have "0 \<le> round_double y"
      using b(2) by (rule round_double_nonneg)
    ultimately show ?thesis by linarith
  next
    case c
    then have "0 < - y" "- y \<le> - x"
      using assms by simp_all
    then have "round_double (- y) \<le> round_double (- x)"
      by (rule round_double_mono_pos)
    then show ?thesis
      by (simp add: round_double_minus)
  qed
qed


lemma ulp_exponent_le:
  assumes "0 < x" "x < 2 powr (of_int j + 53)" "- 1074 \<le> j"
  shows "ulp_exponent x \<le> j"
proof -
  have "2 powr of_int \<lfloor>log 2 x\<rfloor> \<le> x"
    using assms(1) by (rule floor_log2_bounds)
  then have "(2 :: real) powr of_int \<lfloor>log 2 x\<rfloor> < 2 powr (of_int j + 53)"
    using assms(2) by linarith
  then have "real_of_int \<lfloor>log 2 x\<rfloor> < of_int j + 53"
    by simp
  then have "\<lfloor>log 2 x\<rfloor> < j + 53"
    by linarith
  then show ?thesis
    using assms(1,3) by (simp add: ulp_exponent_def)
qed

lemma round_double_exact:
  assumes "0 < n" "n < 2 ^ 53" "- 1074 \<le> j"
  shows "round_double (of_int n * 2 powr of_int j) = of_int n * 2 powr of_int j"
proof -
  define x :: real where "x = of_int n * 2 powr of_int j"
  define e where "e = ulp_exponent x"
  have pos: "0 < x"
    using assms(1) by (simp add: x_def)
  have "real_of_int n < of_int (2 ^ 53)"
    using assms(2) by (simp only: of_int_less_iff)
  then have "real_of_int n < 2 powr 53"
    by simp
  then have "x < 2 powr 53 * 2 powr of_int j"
    unfolding x_def by (intro mult_strict_right_mono) simp_all
  then have "x < 2 powr (of_int j + 53)"
    by (simp add: powr_add mult.commute)
  then have le: "e \<le> j"
    unfolding e_def using pos assms(3) by (intro ulp_exponent_le)
  have "(2 :: real) powr of_int j = 2 powr (of_int (j - e) + of_int e)"
    by simp
  also have "\<dots> = 2 powr of_int (j - e) * 2 powr of_int e"
    by (simp only: powr_add)
  also have "2 powr real_of_int (j - e) = 2 ^ nat (j - e)"
    using le by (simp add: powr_realpow [symmetric])
  finally have j: "(2 :: real) powr of_int j = 2 ^ nat (j - e) * 2 powr of_int e" .
  have "x / 2 powr of_int e = of_int n * 2 ^ nat (j - e)"
    by (simp add: x_def j)
  also have "\<dots> = of_int (n * 2 ^ nat (j - e))"
    by simp
  finally have "round_even (x / 2 powr of_int e) = n * 2 ^ nat (j - e)"
    by (simp only: round_even_of_int)
  then have "round_double x = of_int (n * 2 ^ nat (j - e)) * 2 powr of_int e"
    using pos by (simp add: round_double_pos e_def)
  also have "\<dots> = x"
    by (simp add: x_def j)
  finally show ?thesis
    by (simp only: x_def)
qed

lemma round_double_int:
  assumes "0 < n" "n < 2 ^ 53"
  shows "round_double (of_int n) = of_int n"
  using round_double_exact [OF assms, of 0] by simp

lemma round_double_1 [simp]: "round_double 1 = 1"
  using round_double_int [of 1] by simp

lemma round_double_near_1: "round_double (1 - 2 powr (- 55)) = 1"
proof -
  define x :: real where "x = 1 - 2 powr (- 55)"
  have p55: "(2 :: real) powr (- 55) = 1 / 2 ^ 55"
    by (simp add: powr_minus_divide)
  have pos: "0 < x"
    by (simp add: x_def p55)
  have "ulp_exponent x = - 1 - 52"
  proof (rule ulp_exponent_normal)
    show "2 powr real_of_int (- 1) \<le> x"
      by (simp add: x_def p55 powr_minus_divide)
    show "x < 2 powr (real_of_int (- 1) + 1)"
      by (simp add: x_def p55)
  qed simp
  then have e: "ulp_exponent x = - 53"
    by simp
  have m: "x / 2 powr of_int (- 53) = 2 ^ 53 - 1 / 4"
    by (simp add: x_def p55 powr_minus_divide)
  have fl: "\<lfloor>(2 :: real) ^ 53 - 1 / 4\<rfloor> = 2 ^ 53 - 1"
    by (rule floor_unique) simp_all
  have "round_even (2 ^ 53 - 1 / 4) = 2 ^ 53"
    unfolding round_even_def fl Let_def by simp
  then have "round_double x = of_int (2 ^ 53) * 2 powr of_int (- 53)"
    using pos by (simp only: round_double_pos e m)
  also have "\<dots> = 1"
    by (simp add: powr_minus_divide)
  finally show ?thesis
    by (simp only: x_def)
qed

lemma round_double_pow2:
  assumes "- 1074 \<le> j"
  shows "round_double (2 powr of_int j) = 2 powr of_int j"
  using round_double_exact [of 1 j] assms by simp

text \<open>The rounding error: half a unit in the last place.\<close>

lemma round_double_error_pos:
  assumes "0 < x"
  shows "\<bar>round_double x - x\<bar> \<le> x * 2 powr (- 53) + 2 powr (- 1075)"
proof -
  define e where "e = ulp_exponent x"
  define m where "m = x / 2 powr of_int e"
  have x: "x = m * 2 powr of_int e"
    by (simp add: m_def)
  have rd: "round_double x = of_int (round_even m) * 2 powr of_int e"
    using assms by (simp add: round_double_pos e_def m_def)
  have "\<bar>of_int (round_even m) - m\<bar> \<le> 1 / 2"
    using round_even_bounds [of m] by linarith
  then have "\<bar>of_int (round_even m) - m\<bar> * 2 powr of_int e \<le> 1 / 2 * 2 powr of_int e"
    by (intro mult_right_mono) simp_all
  moreover have "m * 2 powr of_int e = x"
    by (simp add: m_def)
  then have "round_double x - x = (of_int (round_even m) - m) * 2 powr of_int e"
    by (simp only: rd left_diff_distrib)
  then have "\<bar>round_double x - x\<bar> = \<bar>of_int (round_even m) - m\<bar> * 2 powr of_int e"
    by (simp add: abs_mult)
  ultimately have err: "\<bar>round_double x - x\<bar> \<le> 2 powr (of_int e - 1)"
    by (simp add: powr_diff)
  show ?thesis
  proof (cases "- 1074 < e")
    case True
    then have "2 powr (of_int e + 52) \<le> x"
      unfolding e_def using assms by (intro normal_lower)
    then have "2 powr (of_int e + 52) * 2 powr (- 53) \<le> x * 2 powr (- 53)"
      by (intro mult_right_mono) simp_all
    then have "2 powr (of_int e - 1) \<le> x * 2 powr (- 53)"
      by (simp add: powr_add [symmetric])
    then show ?thesis
      using err by (simp add: add_increasing2)
  next
    case False
    then have "of_int e - 1 \<le> (- 1075 :: real)"
      by simp
    then have "(2 :: real) powr (of_int e - 1) \<le> 2 powr (- 1075)"
      by (intro powr_mono) simp_all
    moreover have "0 \<le> x * 2 powr (- 53)"
      using assms by simp
    ultimately show ?thesis
      using err by linarith
  qed
qed

lemma round_double_error:
  "\<bar>round_double x - x\<bar> \<le> \<bar>x\<bar> * 2 powr (- 53) + 2 powr (- 1075)"
proof -
  consider "0 < x" | "x = 0" | "x < 0"
    by linarith
  then show ?thesis
  proof cases
    case 1
    then show ?thesis
      using round_double_error_pos [of x] by simp
  next
    case 2
    then show ?thesis
      by simp
  next
    case 3
    then have "\<bar>round_double (- x) - (- x)\<bar> \<le> (- x) * 2 powr (- 53) + 2 powr (- 1075)"
      by (intro round_double_error_pos) simp
    moreover have "\<bar>round_double (- x) - (- x)\<bar> = \<bar>round_double x - x\<bar>"
      by (simp add: round_double_minus abs_minus_commute)
    ultimately show ?thesis
      using 3 by simp
  qed
qed

lemma round_double_error_100:
  "\<bar>round_double x - x\<bar> \<le> \<bar>x\<bar> * (1 / 2 ^ 53) + 1 / 2 ^ 100"
proof -
  define a :: real where "a = 2 powr (- 1075)"
  define b :: real where "b = 2 powr (- 53)"
  have "a \<le> 2 powr (- 100)"
    unfolding a_def by (intro powr_mono) simp_all
  then have a: "a \<le> 1 / 2 ^ 100"
    by (simp add: powr_minus_divide)
  have b: "b = 1 / 2 ^ 53"
    by (simp add: b_def powr_minus_divide)
  have "\<bar>round_double x - x\<bar> \<le> \<bar>x\<bar> * b + a"
    unfolding a_def b_def by (rule round_double_error)
  then show ?thesis
    unfolding b using a by linarith
qed

subsection \<open>Crown fraction burned\<close>

text \<open>In exact arithmetic the crown fraction burned is less than \<open>1\<close>.\<close>

lemma crownFractionBurned_range_real:
  "0 \<le> crownFractionBurned ros rso" "crownFractionBurned ros rso < 1"
  by (simp_all add: crownFractionBurned_def)

lemma Math_exp_mono: "x \<le> y \<Longrightarrow> Math_exp x \<le> Math_exp y"
  unfolding Math_exp_def by (intro round_double_mono) simp

lemma Math_exp_range:
  assumes "x \<le> 0"
  shows "0 \<le> Math_exp x" "Math_exp x \<le> 1"
proof -
  show "0 \<le> Math_exp x"
    unfolding Math_exp_def by (intro round_double_nonneg) simp
  have "round_double (exp x) \<le> round_double 1"
    using assms by (intro round_double_mono) simp
  then show "Math_exp x \<le> 1"
    by (simp add: Math_exp_def)
qed

lemma exponent_nonpos:
  assumes "rso \<le> ros"
  shows "round_double (- round_double 0.23 * round_double (ros - rso)) \<le> 0"
proof -
  have "0 \<le> round_double 0.23" "0 \<le> round_double (ros - rso)"
    using assms by (intro round_double_nonneg; simp)+
  then have "- round_double 0.23 * round_double (ros - rso) \<le> 0"
    by (simp add: mult_nonneg_nonneg)
  then have "round_double (- round_double 0.23 * round_double (ros - rso)) \<le> round_double 0"
    by (rule round_double_mono)
  then show ?thesis
    by simp
qed

lemma crownFractionBurned_double_range:
  "0 \<le> crownFractionBurned_double ros rso" "crownFractionBurned_double ros rso \<le> 1"
proof -
  let ?t = "round_double (- round_double 0.23 * round_double (ros - rso))"
  show "0 \<le> crownFractionBurned_double ros rso"
  proof (cases "ros > rso")
    case True
    then have "Math_exp ?t \<le> 1"
      by (intro Math_exp_range exponent_nonpos) simp
    then have "0 \<le> round_double (1 - Math_exp ?t)"
      by (intro round_double_nonneg) simp
    then show ?thesis
      using True by (simp add: crownFractionBurned_double_def)
  qed (simp add: crownFractionBurned_double_def)
  show "crownFractionBurned_double ros rso \<le> 1"
  proof (cases "ros > rso")
    case True
    then have "0 \<le> Math_exp ?t"
      by (intro Math_exp_range exponent_nonpos) simp
    then have "round_double (1 - Math_exp ?t) \<le> round_double 1"
      by (intro round_double_mono) simp
    then show ?thesis
      using True by (simp add: crownFractionBurned_double_def)
  qed (simp add: crownFractionBurned_double_def)
qed

lemma crownFractionBurned_double_mono:
  assumes "ros1 \<le> ros2"
  shows "crownFractionBurned_double ros1 rso \<le> crownFractionBurned_double ros2 rso"
proof (cases "ros1 > rso")
  case True
  then have 2: "ros2 > rso"
    using assms by linarith
  have c: "0 \<le> round_double 0.23"
    by (intro round_double_nonneg) simp
  have "round_double (ros1 - rso) \<le> round_double (ros2 - rso)"
    using assms by (intro round_double_mono) simp
  then have "round_double 0.23 * round_double (ros1 - rso)
      \<le> round_double 0.23 * round_double (ros2 - rso)"
    using c by (rule mult_left_mono)
  then have "round_double (- round_double 0.23 * round_double (ros2 - rso))
      \<le> round_double (- round_double 0.23 * round_double (ros1 - rso))"
    by (intro round_double_mono) simp
  then have "Math_exp (round_double (- round_double 0.23 * round_double (ros2 - rso)))
      \<le> Math_exp (round_double (- round_double 0.23 * round_double (ros1 - rso)))"
    by (rule Math_exp_mono)
  then have "round_double (1 - Math_exp (round_double (- round_double 0.23 * round_double (ros1 - rso))))
      \<le> round_double (1 - Math_exp (round_double (- round_double 0.23 * round_double (ros2 - rso))))"
    by (intro round_double_mono) simp
  then show ?thesis
    using True 2 by (simp add: crownFractionBurned_double_def)
next
  case False
  then have "crownFractionBurned_double ros1 rso = 0"
    by (simp add: crownFractionBurned_double_def)
  then show ?thesis
    using crownFractionBurned_double_range(1) [of ros2 rso] by simp
qed

lemma exp_43: "exp (- 43 :: real) \<le> 2 powr (- 55)"
proof -
  have "1 + (1 :: real) + 1\<^sup>2 / 2 \<le> exp 1"
    by (rule exp_lower_Taylor_quadratic) simp
  then have "(5 / 2 :: real) \<le> exp 1"
    by simp
  then have "(5 / 2 :: real) ^ 43 \<le> exp 1 ^ 43"
    by (intro power_mono) simp_all
  also have "\<dots> = exp (43 :: real)"
    by (simp add: exp_of_nat_mult [symmetric])
  finally have "(5 / 2 :: real) ^ 43 \<le> exp 43" .
  moreover have "(2 :: real) ^ 55 \<le> (5 / 2) ^ 43"
    by (simp add: power_divide)
  ultimately have "(2 :: real) ^ 55 \<le> exp 43"
    by (rule order_trans [rotated])
  then have "1 / exp (43 :: real) \<le> 1 / 2 ^ 55"
    by (intro divide_left_mono) simp_all
  then show ?thesis
    by (simp add: exp_minus powr_minus_divide inverse_eq_divide)
qed

lemma crownFractionBurned_double_saturates:
  assumes "200 \<le> ros - rso"
  shows "crownFractionBurned_double ros rso = 1"
proof -
  let ?c = "round_double 0.23" and ?d = "round_double (ros - rso)"
  let ?t = "round_double (- ?c * ?d)"
  have "round_double (of_int 7 * 2 powr of_int (- 5)) \<le> ?c"
    by (intro round_double_mono) (simp add: powr_minus_divide)
  then have c: "7 / 32 \<le> ?c"
    using round_double_exact [of 7 "- 5"] by (simp add: powr_minus_divide)
  have "round_double (of_int 200) \<le> ?d"
    using assms by (intro round_double_mono) simp
  then have d: "200 \<le> ?d"
    using round_double_int [of 200] by simp
  have "7 / 32 * 200 \<le> ?c * ?d"
    using c d by (intro mult_mono) simp_all
  then have "- ?c * ?d \<le> - of_int 43"
    by simp
  then have "?t \<le> round_double (- of_int 43)"
    by (rule round_double_mono)
  then have "?t \<le> - 43"
    using round_double_int [of 43] by (simp add: round_double_minus)
  then have "exp ?t \<le> exp (- 43)"
    by (simp only: exp_le_cancel_iff)
  then have "exp ?t \<le> 2 powr (- 55)"
    using exp_43 by (rule order_trans)
  then have "exp ?t \<le> of_int 1 * 2 powr of_int (- 55)"
    by simp
  then have "Math_exp ?t \<le> round_double (of_int 1 * 2 powr of_int (- 55))"
    unfolding Math_exp_def by (rule round_double_mono)
  then have "Math_exp ?t \<le> 2 powr (- 55)"
    using round_double_exact [of 1 "- 55"] by simp
  then have "round_double (1 - 2 powr (- 55)) \<le> round_double (1 - Math_exp ?t)"
    by (intro round_double_mono) simp
  then have "1 \<le> crownFractionBurned_double ros rso"
    using assms by (simp add: crownFractionBurned_double_def round_double_near_1)
  then show ?thesis
    using crownFractionBurned_double_range(2) [of ros rso] by linarith
qed

text \<open>
  The value in double precision is within \<open>1 / 2 ^ 46\<close> of the value in exact
  arithmetic: the exponent carries three roundings, of relative size
  \<open>1 / 2 ^ 53\<close> each, which the exponential turns into an absolute error, and the
  exponential and the difference are rounded once each.
\<close>

lemma exp_diff_bound:
  fixes a b :: real
  assumes "a \<le> b"
  shows "exp b - exp a \<le> (b - a) * exp b"
proof -
  define z where "z = 1 - exp (- (b - a))"
  have "z \<le> b - a"
    unfolding z_def using exp_ge_add_one_self [of "- (b - a)"] by linarith
  then have "z * exp b \<le> (b - a) * exp b"
    by (intro mult_right_mono) simp_all
  moreover have "z * exp b = exp b - exp a"
    by (simp add: z_def left_diff_distrib exp_add [symmetric])
  ultimately show ?thesis
    by (simp only:)
qed

lemma exp_abs_diff_bound:
  fixes a b :: real
  shows "\<bar>exp a - exp b\<bar> \<le> \<bar>a - b\<bar> * exp (max a b)"
proof (cases "a \<le> b")
  case True
  then show ?thesis
    using exp_diff_bound [of a b] by (simp add: max_def abs_if)
next
  case False
  then show ?thesis
    using exp_diff_bound [of b a] by (simp add: max_def abs_if)
qed

lemma x_exp_minus:
  fixes x :: real
  shows "x * exp (- x) \<le> 1"
proof -
  have "x \<le> exp x"
    using exp_ge_add_one_self [of x] by linarith
  then have "x * exp (- x) \<le> exp x * exp (- x)"
    by (intro mult_right_mono) simp_all
  then show ?thesis
    by (simp add: exp_minus)
qed


lemma exponent_error:
  fixes d0 :: real
  assumes "0 < d0"
  defines "q \<equiv> 23 / 100 * d0"
  defines "s \<equiv> round_double (round_double 0.23 * round_double d0)"
  shows "0 \<le> s" "\<bar>s - q\<bar> \<le> q * (1 / 2 ^ 49) + 1 / 2 ^ 98"
proof -
  define u :: real where "u = 1 / 2 ^ 53"
  define h :: real where "h = 1 / 2 ^ 100"
  define c where "c = round_double (23 / 100)"
  define d where "d = round_double d0"
  define p where "p = c * d"
  define X where "X = d0 * u"
  define Y where "Y = q * u"
  define Z where "Z = h * u"
  have s: "s = round_double p"
    by (simp add: s_def p_def c_def d_def)
  have u: "0 < u" "u \<le> 1 / 2" and h: "0 < h" "h \<le> u / 4" "h \<le> 1 / 4"
    by (simp_all add: u_def h_def)
  have q: "0 < q"
    using assms(1) by (simp add: q_def)
  have XY: "23 * X = 100 * Y"
    by (simp add: X_def Y_def q_def)
  have Y: "0 \<le> Y" "Y \<le> q / 2"
  proof -
    show "0 \<le> Y"
      using q u by (simp add: Y_def)
    have "q * u \<le> q * (1 / 2)"
      using q u by (intro mult_left_mono) simp_all
    then show "Y \<le> q / 2"
      by (simp add: Y_def)
  qed
  have X: "0 \<le> X" "X \<le> d0"
  proof -
    show "0 \<le> X"
      using assms(1) u by (simp add: X_def)
    have "d0 * u \<le> d0 * 1"
      using assms(1) u by (intro mult_left_mono) simp_all
    then show "X \<le> d0"
      by (simp add: X_def)
  qed
  have Z: "0 \<le> Z" "Z \<le> h / 2"
  proof -
    show "0 \<le> Z"
      using h u by (simp add: Z_def)
    have "h * u \<le> h * (1 / 2)"
      using h u by (intro mult_left_mono) simp_all
    then show "Z \<le> h / 2"
      by (simp add: Z_def)
  qed
  have c0: "0 \<le> c"
    unfolding c_def by (intro round_double_nonneg) simp
  have d0: "0 \<le> d"
    unfolding d_def using assms(1) by (intro round_double_nonneg) simp
  have p0: "0 \<le> p"
    unfolding p_def using c0 d0 by (rule mult_nonneg_nonneg)
  show s0: "0 \<le> s"
    unfolding s using p0 by (rule round_double_nonneg)
  have "\<bar>c - 23 / 100\<bar> \<le> \<bar>23 / 100\<bar> * u + h"
    unfolding c_def u_def h_def by (rule round_double_error_100)
  then have ce: "\<bar>c - 23 / 100\<bar> \<le> u / 2"
    using h u by simp
  have "\<bar>d - d0\<bar> \<le> \<bar>d0\<bar> * u + h"
    unfolding d_def u_def h_def by (rule round_double_error_100)
  then have de: "\<bar>d - d0\<bar> \<le> X + h"
    using assms(1) by (simp add: X_def)
  have dle: "d \<le> 2 * d0 + h"
    using de X by linarith
  define A where "A = \<bar>(c - 23 / 100) * d\<bar>"
  define B where "B = \<bar>23 / 100 * (d - d0)\<bar>"
  have "A = \<bar>c - 23 / 100\<bar> * d"
    unfolding A_def using d0 by (simp only: abs_mult abs_of_nonneg)
  also have "\<dots> \<le> u / 2 * (2 * d0 + h)"
    using ce dle d0 u by (intro mult_mono) simp_all
  also have "\<dots> = X + Z / 2"
    by (simp add: X_def Z_def algebra_simps)
  finally have A: "A \<le> X + h / 4"
    using Z by linarith
  have "B = \<bar>23 / 100 :: real\<bar> * \<bar>d - d0\<bar>"
    unfolding B_def by (rule abs_mult)
  also have "\<dots> = 23 / 100 * \<bar>d - d0\<bar>"
    by simp
  also have "\<dots> \<le> 1 / 4 * (X + h)"
    using de by (intro mult_mono) simp_all
  also have "\<dots> = X / 4 + h / 4"
    by (simp add: add_divide_distrib)
  finally have B: "B \<le> X / 4 + h / 4" .
  have "p - q = (c - 23 / 100) * d + 23 / 100 * (d - d0)"
    by (simp add: p_def q_def left_diff_distrib right_diff_distrib)
  then have "\<bar>p - q\<bar> \<le> A + B"
    unfolding A_def B_def by (simp only: abs_triangle_ineq)
  then have "\<bar>p - q\<bar> \<le> X + X / 4 + h / 2"
    using A B by linarith
  then have pq: "\<bar>p - q\<bar> \<le> 6 * Y + h / 2"
    using XY Y by linarith
  have ple: "p \<le> 4 * q + h / 2"
    using pq Y by linarith
  have "\<bar>s - p\<bar> \<le> \<bar>p\<bar> * u + h"
    unfolding s u_def h_def by (rule round_double_error_100)
  then have "\<bar>s - p\<bar> \<le> p * u + h"
    using p0 by simp
  moreover have "p * u \<le> (4 * q + h / 2) * u"
    using ple u by (intro mult_right_mono) simp_all
  moreover have "(4 * q + h / 2) * u = 4 * Y + Z / 2"
    by (simp add: Y_def Z_def algebra_simps)
  ultimately have sp: "\<bar>s - p\<bar> \<le> 4 * Y + h + h / 4"
    using Z by linarith
  have "\<bar>s - q\<bar> \<le> \<bar>s - p\<bar> + \<bar>p - q\<bar>"
    by simp
  then have "\<bar>s - q\<bar> \<le> 16 * Y + 2 * h"
    using sp pq Y h by linarith
  moreover have "16 * Y = q * (1 / 2 ^ 49)"
    by (simp add: Y_def u_def)
  moreover have "2 * h \<le> 1 / 2 ^ 98"
    by (simp add: h_def)
  ultimately show "\<bar>s - q\<bar> \<le> q * (1 / 2 ^ 49) + 1 / 2 ^ 98"
    by linarith
qed


lemma exp_error:
  fixes s q :: real
  assumes "0 < q" "\<bar>s - q\<bar> \<le> q * (1 / 2 ^ 49) + 1 / 2 ^ 98"
  shows "\<bar>exp (- s) - exp (- q)\<bar> \<le> 1 / 2 ^ 47 + 1 / 2 ^ 97"
proof -
  define e :: real where "e = 1 / 2 ^ 49"
  define k :: real where "k = 1 / 2 ^ 98"
  define W where "W = q * e"
  define G where "G = exp (- (q / 2))"
  have e: "0 < e" "e \<le> 1 / 2" and k: "0 < k" "k \<le> 1 / 2"
    by (simp_all add: e_def k_def)
  have W: "0 \<le> W" "W \<le> q / 2"
  proof -
    show "0 \<le> W"
      using assms(1) e by (simp add: W_def)
    have "q * e \<le> q * (1 / 2)"
      using assms(1) e by (intro mult_left_mono) simp_all
    then show "W \<le> q / 2"
      by (simp add: W_def)
  qed
  have sq: "\<bar>s - q\<bar> \<le> W + k"
    using assms(2) by (simp add: W_def e_def k_def)
  have G: "0 < G" "G \<le> 1"
    using assms(1) by (simp_all add: G_def)
  have "q / 2 * exp (- (q / 2)) \<le> 1"
    by (rule x_exp_minus)
  then have qG: "q * G \<le> 2"
    by (simp add: G_def)
  have "W * G = e * (q * G)"
    by (simp add: W_def)
  also have "\<dots> \<le> e * 2"
    using qG e by (intro mult_left_mono) simp_all
  finally have WG: "W * G \<le> 2 * e"
    by simp
  have "k * G \<le> k * 1"
    using G k by (intro mult_left_mono) simp_all
  then have kG: "k * G \<le> k"
    by simp
  have "max (- s) (- q) \<le> - (q / 2) + k"
    using sq W k by (simp add: max_def) linarith
  then have "exp (max (- s) (- q)) \<le> exp (- (q / 2) + k)"
    by (simp only: exp_le_cancel_iff)
  also have "\<dots> = G * exp k"
    unfolding G_def by (rule exp_add)
  also have "\<dots> \<le> G * 2"
  proof -
    have "exp k \<le> 1 + k + k\<^sup>2"
      using k by (intro exp_bound) simp_all
    moreover have "k\<^sup>2 \<le> (1 / 2)\<^sup>2"
      using k by (intro power_mono) simp_all
    ultimately have "exp k \<le> 2"
      using k by (simp add: power2_eq_square) 
    then show ?thesis
      using G by (intro mult_left_mono) simp_all
  qed
  finally have mx: "exp (max (- s) (- q)) \<le> 2 * G"
    by simp
  have "\<bar>exp (- s) - exp (- q)\<bar> \<le> \<bar>- s - (- q)\<bar> * exp (max (- s) (- q))"
    by (rule exp_abs_diff_bound)
  also have "\<bar>- s - (- q)\<bar> = \<bar>s - q\<bar>"
    by (simp add: abs_minus_commute)
  also have "\<bar>s - q\<bar> * exp (max (- s) (- q)) \<le> (W + k) * (2 * G)"
    using sq mx by (intro mult_mono) simp_all
  also have "\<dots> = 2 * (W * G) + 2 * (k * G)"
    by (simp add: algebra_simps)
  also have "\<dots> \<le> 4 * e + 2 * k"
    using WG kG by linarith
  also have "\<dots> = 1 / 2 ^ 47 + 1 / 2 ^ 97"
    by (simp add: e_def k_def)
  finally show ?thesis .
qed

lemma crownFractionBurned_double_accuracy:
  "\<bar>crownFractionBurned_double ros rso - crownFractionBurned ros rso\<bar> \<le> 1 / 2 ^ 46"
proof (cases "ros > rso")
  case False
  then show ?thesis
    by (simp add: crownFractionBurned_double_def crownFractionBurned_def)
next
  case True
  define q where "q = 23 / 100 * (ros - rso)"
  define s where "s = round_double (round_double 0.23 * round_double (ros - rso))"
  define y where "y = Math_exp (- s)"
  define r where "r = round_double (1 - y)"
  define u :: real where "u = 1 / 2 ^ 53"
  define h :: real where "h = 1 / 2 ^ 100"
  have pos: "0 < ros - rso"
    using True by simp
  have q: "0 < q"
    using pos by (simp add: q_def)
  have s: "0 \<le> s" "\<bar>s - q\<bar> \<le> q * (1 / 2 ^ 49) + 1 / 2 ^ 98"
    unfolding s_def q_def using pos by (rule exponent_error)+
  have E: "\<bar>exp (- s) - exp (- q)\<bar> \<le> 1 / 2 ^ 47 + 1 / 2 ^ 97"
    using q s(2) by (rule exp_error)
  have e1: "0 < exp (- s)" "exp (- s) \<le> 1"
    using s(1) by simp_all
  have "\<bar>y - exp (- s)\<bar> \<le> \<bar>exp (- s)\<bar> * u + h"
    unfolding y_def Math_exp_def u_def h_def by (rule round_double_error_100)
  moreover have "\<bar>exp (- s)\<bar> * u \<le> 1 * u"
    using e1 by (intro mult_right_mono) (simp_all add: u_def)
  ultimately have ye: "\<bar>y - exp (- s)\<bar> \<le> u + h"
    by linarith
  have y: "0 \<le> y" "y \<le> 1"
    unfolding y_def using s(1) by (intro Math_exp_range; simp)+
  have "\<bar>r - (1 - y)\<bar> \<le> \<bar>1 - y\<bar> * u + h"
    unfolding r_def u_def h_def by (rule round_double_error_100)
  moreover have "\<bar>1 - y\<bar> * u \<le> 1 * u"
    using y by (intro mult_right_mono) (simp_all add: u_def)
  ultimately have re: "\<bar>r - (1 - y)\<bar> \<le> u + h"
    by linarith
  have "\<bar>r - (1 - exp (- q))\<bar> \<le> 2 * u + 2 * h + (1 / 2 ^ 47 + 1 / 2 ^ 97)"
    using re ye E by linarith
  also have "\<dots> \<le> 1 / 2 ^ 46"
    by (simp add: u_def h_def)
  finally have "\<bar>r - (1 - exp (- q))\<bar> \<le> 1 / 2 ^ 46" .
  moreover have "crownFractionBurned_double ros rso = r"
    using True by (simp add: crownFractionBurned_double_def r_def y_def s_def round_double_minus)
  moreover have "crownFractionBurned ros rso = 1 - exp (- q)"
    using True by (simp add: crownFractionBurned_def q_def)
  ultimately show ?thesis
    by simp
qed

text \<open>
  Claim C8, as the code has it. In double precision, \<open>crownFractionBurned ROS RSO\<close>
  is \<open>1 - exp (- 0.23 * (ROS - RSO))\<close> with every operation rounded when
  \<open>ROS > RSO\<close>, and \<open>0\<close> otherwise, which is within \<open>1 / 2 ^ 46\<close> of the exact value
  of the formula; for a fixed \<open>RSO\<close> it is non-decreasing in \<open>ROS\<close>; its value is at
  least \<open>0\<close> and at most \<open>1\<close>, and it is exactly \<open>1\<close> as soon as \<open>ROS - RSO\<close> is
  \<open>200\<close> or more. The range is the closed interval from \<open>0\<close> to \<open>1\<close>.
\<close>

theorem crownFractionBurned_double_rule:
  "(ros > rso \<longrightarrow>
      crownFractionBurned_double ros rso
        = round_double (1 - Math_exp (round_double (- round_double 0.23 * round_double (ros - rso))))) \<and>
   (ros \<le> rso \<longrightarrow> crownFractionBurned_double ros rso = 0) \<and>
   \<bar>crownFractionBurned_double ros rso - (if ros > rso then 1 - exp (- 0.23 * (ros - rso)) else 0)\<bar>
     \<le> 1 / 2 ^ 46 \<and>
   (ros1 \<le> ros2 \<longrightarrow> crownFractionBurned_double ros1 rso \<le> crownFractionBurned_double ros2 rso) \<and>
   0 \<le> crownFractionBurned_double ros rso \<and> crownFractionBurned_double ros rso \<le> 1 \<and>
   (200 \<le> ros - rso \<longrightarrow> crownFractionBurned_double ros rso = 1)"
proof (intro conjI impI)
  show "crownFractionBurned_double ros rso
      = round_double (1 - Math_exp (round_double (- round_double 0.23 * round_double (ros - rso))))"
    if "ros > rso"
    using that by (simp add: crownFractionBurned_double_def)
  show "crownFractionBurned_double ros rso = 0" if "ros \<le> rso"
    using that by (simp add: crownFractionBurned_double_def)
  show "\<bar>crownFractionBurned_double ros rso - (if ros > rso then 1 - exp (- 0.23 * (ros - rso)) else 0)\<bar>
     \<le> 1 / 2 ^ 46"
    using crownFractionBurned_double_accuracy [of ros rso] by (simp only: crownFractionBurned_def)
  show "crownFractionBurned_double ros1 rso \<le> crownFractionBurned_double ros2 rso" if "ros1 \<le> ros2"
    using that by (rule crownFractionBurned_double_mono)
  show "0 \<le> crownFractionBurned_double ros rso" "crownFractionBurned_double ros rso \<le> 1"
    by (rule crownFractionBurned_double_range)+
  show "crownFractionBurned_double ros rso = 1" if "200 \<le> ros - rso"
    using that by (rule crownFractionBurned_double_saturates)
qed

theorem crownFractionBurned_double_rule_witness:
  "crownFractionBurned_double 1 2 = 0 \<and>
   crownFractionBurned_double 3 2 \<le> crownFractionBurned_double 5 2 \<and>
   crownFractionBurned_double 5 2
     = round_double (1 - Math_exp (round_double (- round_double 0.23 * round_double (5 - 2)))) \<and>
   \<bar>crownFractionBurned_double 5 2 - (1 - exp (- 0.23 * 3))\<bar> \<le> 1 / 2 ^ 46 \<and>
   crownFractionBurned_double 5 2 \<le> 1 \<and>
   crownFractionBurned_double 300 50 = 1"
proof -
  have "crownFractionBurned_double 5 2
      = round_double (1 - Math_exp (round_double (- round_double 0.23 * round_double (5 - 2))))"
    using crownFractionBurned_double_rule [of 2 5 3 5, THEN conjunct1] by simp
  moreover have "crownFractionBurned_double 1 2 = 0 \<and>
      crownFractionBurned_double 3 2 \<le> crownFractionBurned_double 5 2 \<and>
      \<bar>crownFractionBurned_double 5 2 - (1 - exp (- 0.23 * 3))\<bar> \<le> 1 / 2 ^ 46 \<and>
      crownFractionBurned_double 5 2 \<le> 1 \<and>
      crownFractionBurned_double 300 50 = 1"
    using crownFractionBurned_double_rule [of 2 1 1 1, THEN conjunct2]
      crownFractionBurned_double_rule [of 2 5 3 5, THEN conjunct2]
      crownFractionBurned_double_rule [of 50 300 1 1, THEN conjunct2]
    by simp
  ultimately show ?thesis
    by blast
qed

text \<open>
  The claim as stated has the value less than \<open>1\<close> for all finite \<open>ROS\<close> and \<open>RSO\<close>.
  At \<open>ROS = 200\<close>, \<open>RSO = 0\<close> the exponential is below half the distance from \<open>1\<close>
  to the next smaller number of the format, and the value returned is \<open>1\<close>.
\<close>

theorem crownFractionBurned_below_one_counterexample:
  "(200 :: real) > 0 \<and> crownFractionBurned_double 200 0 = 1"
  using crownFractionBurned_double_saturates [of 200 0] by simp

subsection \<open>What the engine returns\<close>

lemma result_fields:
  "ROS (rateOfSpreadExtended p) = vconstrainedROS (rateOfSpreadVars p)"
  "CFB (rateOfSpreadExtended p) = vCFB (rateOfSpreadVars p)"
  "CSI (rateOfSpreadExtended p) = vCSI (rateOfSpreadVars p)"
  "RSO (rateOfSpreadExtended p) = vRSO (rateOfSpreadVars p)"
  by (simp_all add: rateOfSpreadExtended_def Let_def)

lemma rateOfSpread_simple:
  assumes "FUELTYPE p \<in> set [C1, C2, C3, C4, C5, C7, D1, S1, S2, S3]"
  shows "vconstrainedROS (rateOfSpreadVars p) =
     (if buildupEffect (FUELTYPE p) (BUI p) * curve (FUELTYPE p) (ISI p) \<le> 0 then 0.000001
      else buildupEffect (FUELTYPE p) (BUI p) * curve (FUELTYPE p) (ISI p))"
proof -
  have n: "FUELTYPE p \<notin> {C6, O1A, O1B}" using assms by auto
  show ?thesis
    by (simp only: rateOfSpreadVars_simple [OF assms] tail_constrained tail_plain [OF n])
qed

lemma vRSS_simple:
  assumes "FUELTYPE p \<in> set [C1, C2, C3, C4, C5, C7, D1, S1, S2, S3]"
  shows "vRSS (rateOfSpreadVars p) = buildupEffect (FUELTYPE p) (BUI p) * curve (FUELTYPE p) (ISI p)"
proof -
  have n: "FUELTYPE p \<notin> {C6, O1A, O1B}" using assms by auto
  show ?thesis
    by (simp only: rateOfSpreadVars_simple [OF assms] tail_plain [OF n])
qed

lemma rateOfSpread_mixed:
  assumes "FUELTYPE p \<in> {M1, M2, M3, M4}"
  shows "vROS (rateOfSpreadVars p) = buildupEffect (FUELTYPE p) (BUI p) * vRSI (rateOfSpreadVars p)"
    and "vRSS (rateOfSpreadVars p) = vROS (rateOfSpreadVars p)"
proof -
  have n: "FUELTYPE p \<notin> {C6, O1A, O1B}" using assms by auto
  obtain r where r: "rateOfSpreadVars p = rateOfSpreadTail p r"
    using rateOfSpreadVars_is_tail by blast
  show "vROS (rateOfSpreadVars p) = buildupEffect (FUELTYPE p) (BUI p) * vRSI (rateOfSpreadVars p)"
    and "vRSS (rateOfSpreadVars p) = vROS (rateOfSpreadVars p)"
    by (simp_all only: r tail_plain [OF n])
qed

lemma RSI_M1:
  "FUELTYPE p = M1 \<Longrightarrow> vRSI (rateOfSpreadVars p) =
     (PC p / 100) * vconstrainedROS (rateOfSpreadVars (p\<lparr>FUELTYPE := C2, BUI := - 1\<rparr>))
      + ((100 - PC p) / 100) * vconstrainedROS (rateOfSpreadVars (p\<lparr>FUELTYPE := D1, BUI := - 1\<rparr>))"
  by (simp add: rateOfSpreadVars_M1 tail_plain)




lemma floor_rule:
  "ROS (rateOfSpreadExtended p) =
     (if vROS (rateOfSpreadVars p) \<le> 0 then 0.000001 else vROS (rateOfSpreadVars p))"
proof -
  obtain r where r: "rateOfSpreadVars p = rateOfSpreadTail p r"
    using rateOfSpreadVars_is_tail by blast
  show ?thesis
    by (simp only: result_fields r tail_constrained)
qed

subsection \<open>Crown fraction burned of C6\<close>

text \<open>
  Claim C3. For C6 the crown fraction burned is positive only when
  \<open>RSC > RSS\<close> and \<open>RSS > RSO\<close> both hold; when one of the two fails it is \<open>0\<close>;
  when both hold it is \<open>crownFractionBurned RSS RSO\<close>. The engine returns this
  value as \<open>CFB\<close> of a C6 observation, with \<open>RSC\<close>, \<open>RSS\<close> and \<open>RSO\<close> computed
  from the observation.
\<close>

theorem crownFractionBurnedC6_rule:
  "(crownFractionBurnedC6 rsc rss rso > 0 \<longrightarrow> rsc > rss \<and> rss > rso) \<and>
   (\<not> rsc > rss \<or> \<not> rss > rso \<longrightarrow> crownFractionBurnedC6 rsc rss rso = 0) \<and>
   (rsc > rss \<and> rss > rso \<longrightarrow> crownFractionBurnedC6 rsc rss rso = crownFractionBurned rss rso) \<and>
   (FUELTYPE p = C6 \<longrightarrow>
      CFB (rateOfSpreadExtended p) =
        crownFractionBurnedC6 (crownRateOfSpreadC6 (ISI p) (FMC p))
          (surfaceRateOfSpreadC6 (intermediateSurfaceRateOfSpreadC6 (ISI p)) (BUI p))
          (surfaceFireRateOfSpread (criticalSurfaceIntensity (FMC p) (CBH p)) (SFC p)))"
proof (intro conjI impI)
  assume "FUELTYPE p = C6"
  then show "CFB (rateOfSpreadExtended p) =
        crownFractionBurnedC6 (crownRateOfSpreadC6 (ISI p) (FMC p))
          (surfaceRateOfSpreadC6 (intermediateSurfaceRateOfSpreadC6 (ISI p)) (BUI p))
          (surfaceFireRateOfSpread (criticalSurfaceIntensity (FMC p) (CBH p)) (SFC p))"
    by (simp add: result_fields rateOfSpreadVars_other tail_C6)
qed (auto simp: crownFractionBurnedC6_def split: if_splits)

theorem crownFractionBurnedC6_rule_witness:
  "crownFractionBurnedC6 5 3 1 = crownFractionBurned 3 1 \<and>
   crownFractionBurnedC6 2 3 1 = 0 \<and> crownFractionBurnedC6 5 3 4 = 0 \<and>
   CFB (rateOfSpreadExtended
         \<lparr>FUELTYPE = C6, ISI = 10, BUI = 60, FMC = 100, SFC = 1, PC = 0, PDF = 0, CC = 0, CBH = 7\<rparr>) =
     crownFractionBurnedC6 (crownRateOfSpreadC6 10 100)
       (surfaceRateOfSpreadC6 (intermediateSurfaceRateOfSpreadC6 10) 60)
       (surfaceFireRateOfSpread (criticalSurfaceIntensity 100 7) 1)"
  using crownFractionBurnedC6_rule [of 5 3 1
      "\<lparr>FUELTYPE = C6, ISI = 10, BUI = 60, FMC = 100, SFC = 1, PC = 0, PDF = 0, CC = 0, CBH = 7\<rparr>"]
    crownFractionBurnedC6_rule [of 2 3 1] crownFractionBurnedC6_rule [of 5 3 4]
  by simp

subsection \<open>Zero initial spread index and the floor\<close>

lemma curve_zero: "ft \<in> set d_keys \<Longrightarrow> curve ft 0 = 0"
  by (simp add: curve_def)






lemma BE_M1_60: "buildupEffect M1 60 = exp (ln (5 / 4) / 6)"
proof -
  have "ln (4 / 5 :: real) = - ln (5 / 4)"
    by (simp add: ln_div)
  then show ?thesis
    by (simp add: buildupEffect_def BUIo_def Q_def d_keys_def)
qed



subsection \<open>The M1 blend\<close>

text \<open>Bounds on the curves and buildup effects at \<open>ISI = 10\<close>, \<open>BUI = 60\<close>.\<close>

lemma curve_C2: "curve C2 x = 110 * (1 - exp (- (0.0282 * x))) powr 1.5"
  by (simp add: curve_def a_coef_def b_coef_def c0_coef_def d_keys_def)

lemma curve_D1: "curve D1 x = 30 * (1 - exp (- (0.0232 * x))) powr 1.6"
  by (simp add: curve_def a_coef_def b_coef_def c0_coef_def d_keys_def)

lemma one_minus_exp_lower:
  fixes x :: real
  assumes "0 \<le> x"
  shows "x / (1 + x) \<le> 1 - exp (- x)"
proof -
  have "1 + x \<le> exp x" by simp
  then have "exp (- x) \<le> 1 / (1 + x)"
    using assms by (simp add: exp_minus field_simps)
  moreover have "1 - 1 / (1 + x) = x / (1 + x)"
    using assms by (simp add: field_simps)
  ultimately show ?thesis by linarith
qed

lemma one_minus_exp_upper:
  fixes x :: real
  shows "1 - exp (- x) \<le> x"
  using exp_ge_add_one_self [of "- x"] by linarith

lemma sq_powr_three_halves:
  fixes x :: real
  assumes "0 \<le> x"
  shows "(x * x) powr (3 / 2) = x * x * x"
proof -
  have "x * x = x powr 2"
    using assms by (simp add: power2_eq_square)
  then have "(x * x) powr (3 / 2) = (x powr 2) powr (3 / 2)"
    by simp
  also have "\<dots> = x powr 3"
    by (simp only: powr_powr) simp
  also have "\<dots> = x * x * x"
    using assms by (simp add: power3_eq_cube)
  finally show ?thesis .
qed

lemma curve_C2_10_lower: "10 \<le> curve C2 10"
proof -
  have "(0.2025 :: real) \<le> 0.282 / (1 + 0.282)" by simp
  also have "\<dots> \<le> 1 - exp (- (0.282 :: real))"
    by (rule one_minus_exp_lower) simp
  finally have u: "(0.2025 :: real) \<le> 1 - exp (- 0.282)" .
  have e: "(0.2025 :: real) powr 1.5 = 0.091125"
    using sq_powr_three_halves [of "0.45"] by simp
  have "(0.2025 :: real) powr 1.5 \<le> (1 - exp (- 0.282)) powr 1.5"
    using u by (intro powr_mono2) simp_all
  then have "0.091125 \<le> (1 - exp (- (0.282 :: real))) powr 1.5"
    by (simp only: e)
  then show ?thesis
    by (simp add: curve_C2)
qed

lemma curve_D1_10_bounds: "0 < curve D1 10" "curve D1 10 \<le> 3.75"
proof -
  have pos: "0 < 1 - exp (- (0.232 :: real))" by simp
  then show "0 < curve D1 10"
    by (simp add: curve_D1)
  have v: "1 - exp (- (0.232 :: real)) \<le> 0.25"
    using one_minus_exp_upper [of "0.232"] by simp
  have "(1 - exp (- (0.232 :: real))) powr 1.6 \<le> 0.25 powr 1.6"
    using v pos by (intro powr_mono2) simp_all
  also have "\<dots> \<le> (0.25 :: real) powr 1.5"
    by (rule powr_mono') simp_all
  also have "(0.25 :: real) powr 1.5 = 0.125"
    using sq_powr_three_halves [of "0.5"] by simp
  finally have "(1 - exp (- (0.232 :: real))) powr 1.6 \<le> 0.125" .
  then show "curve D1 10 \<le> 3.75"
    by (simp add: curve_D1)
qed

lemma BE_M1_60_lower: "1 + 1 / 30 \<le> buildupEffect M1 60"
proof -
  have "exp (1 / 5 :: real) \<le> 1 + 1 / 5 + (1 / 5)\<^sup>2"
    by (rule exp_bound) simp_all
  also have "\<dots> \<le> 5 / 4" by (simp add: power2_eq_square)
  finally have "exp (1 / 5 :: real) \<le> 5 / 4" .
  moreover have "1 / 5 \<le> ln (5 / 4 :: real) \<longleftrightarrow> exp (1 / 5 :: real) \<le> 5 / 4"
    by (rule ln_ge_iff) simp
  ultimately have "1 / 5 \<le> ln (5 / 4 :: real)"
    by blast
  then have "1 / 30 \<le> ln (5 / 4 :: real) / 6" by simp
  moreover have "1 + ln (5 / 4 :: real) / 6 \<le> exp (ln (5 / 4) / 6)"
    by (rule exp_ge_add_one_self)
  ultimately show ?thesis
    unfolding BE_M1_60 by linarith
qed

lemma BE_C2_60_upper: "buildupEffect C2 60 \<le> 1"
proof -
  have "ln (7 / 10 :: real) < 0" by simp
  then show ?thesis
    by (simp add: buildupEffect_def BUIo_def Q_def d_keys_def mult_le_0_iff)
qed

lemma BE_D1_60_upper: "buildupEffect D1 60 \<le> 1.09"
proof -
  have "ln (9 / 10 :: real) = - ln (10 / 9)"
    by (simp add: ln_div)
  then have be: "buildupEffect D1 60 = exp (35 / 48 * ln (10 / 9))"
    by (simp add: buildupEffect_def BUIo_def Q_def d_keys_def)
  have "ln (10 / 9 :: real) \<le> 10 / 9 - 1"
    by (rule ln_le_minus_one) simp
  then have le: "35 / 48 * ln (10 / 9 :: real) \<le> 35 / 432" by simp
  have "0 \<le> ln (10 / 9 :: real)" by simp
  have "exp (35 / 48 * ln (10 / 9 :: real)) \<le> exp (35 / 432)"
    using le by simp
  also have "\<dots> \<le> 1 + 35 / 432 + (35 / 432)\<^sup>2"
    by (rule exp_bound) simp_all
  also have "\<dots> \<le> 1.09"
    by (simp add: power2_eq_square)
  finally show ?thesis
    by (simp only: be)
qed


lemma sub_ros:
  assumes "ft \<in> {C2, D1}" "0 < curve ft (ISI p)"
  shows "vconstrainedROS (rateOfSpreadVars (p\<lparr>FUELTYPE := ft, BUI := - 1\<rparr>)) = curve ft (ISI p)"
proof -
  have "FUELTYPE (p\<lparr>FUELTYPE := ft, BUI := - 1\<rparr>) \<in> set [C1, C2, C3, C4, C5, C7, D1, S1, S2, S3]"
    using assms(1) by auto
  then show ?thesis
    using assms(2) by (simp add: rateOfSpread_simple buildupEffect_nonpos)
qed

text \<open>
  Claim C1, as the code has it. For M1 with \<open>PC = 50\<close> (in particular at
  \<open>ISI = 10\<close>, \<open>BUI = 60\<close>) the surface spread rate is the buildup effect of M1 at
  the observation's \<open>BUI\<close>, times the average of the results of the engine for C2
  and for D1 at the same \<open>ISI\<close> with the buildup effect disabled (\<open>BUI = - 1\<close>);
  it is the \<open>ROS\<close> the engine returns.
\<close>

theorem M1_blend:
  assumes "FUELTYPE p = M1" "PC p = 50"
  shows "vRSS (rateOfSpreadVars p) =
      buildupEffect M1 (BUI p)
      * (0.5 * rateOfSpread (p\<lparr>FUELTYPE := C2, BUI := - 1\<rparr>)
         + 0.5 * rateOfSpread (p\<lparr>FUELTYPE := D1, BUI := - 1\<rparr>))
    \<and> rateOfSpread p = vRSS (rateOfSpreadVars p)"
proof -
  let ?c = "vconstrainedROS (rateOfSpreadVars (p\<lparr>FUELTYPE := C2, BUI := - 1\<rparr>))"
  let ?d = "vconstrainedROS (rateOfSpreadVars (p\<lparr>FUELTYPE := D1, BUI := - 1\<rparr>))"
  have mixed: "FUELTYPE p \<in> {M1, M2, M3, M4}"
    using assms(1) by simp
  have rsi: "vRSI (rateOfSpreadVars p) = 0.5 * ?c + 0.5 * ?d"
    using assms by (simp add: RSI_M1)
  have ros: "vROS (rateOfSpreadVars p) = buildupEffect M1 (BUI p) * (0.5 * ?c + 0.5 * ?d)"
    using rateOfSpread_mixed(1) [OF mixed] rsi assms(1) by simp
  have rss: "vRSS (rateOfSpreadVars p) = vROS (rateOfSpreadVars p)"
    using mixed by (rule rateOfSpread_mixed(2))
  have "0 < ?c" "0 < ?d"
    by (rule constrained_pos)+
  then have "0 < 0.5 * ?c + 0.5 * ?d"
    by simp
  then have pos: "0 < vROS (rateOfSpreadVars p)"
    unfolding ros using buildupEffect_pos [of M1 "BUI p"] by (rule mult_pos_pos [rotated])
  have "rateOfSpread p = vROS (rateOfSpreadVars p)"
    using pos by (simp add: rateOfSpread_def floor_rule)
  then show ?thesis
    by (simp add: rss ros rateOfSpread_def result_fields)
qed

theorem M1_blend_witness:
  "vRSS (rateOfSpreadVars
      \<lparr>FUELTYPE = M1, ISI = 10, BUI = 60, FMC = 100, SFC = 1, PC = 50, PDF = 0, CC = 0, CBH = 7\<rparr>)
   = buildupEffect M1 60
     * (0.5 * rateOfSpread
          \<lparr>FUELTYPE = C2, ISI = 10, BUI = - 1, FMC = 100, SFC = 1, PC = 50, PDF = 0, CC = 0, CBH = 7\<rparr>
        + 0.5 * rateOfSpread
          \<lparr>FUELTYPE = D1, ISI = 10, BUI = - 1, FMC = 100, SFC = 1, PC = 50, PDF = 0, CC = 0, CBH = 7\<rparr>)
   \<and> rateOfSpread
      \<lparr>FUELTYPE = M1, ISI = 10, BUI = 60, FMC = 100, SFC = 1, PC = 50, PDF = 0, CC = 0, CBH = 7\<rparr>
     = vRSS (rateOfSpreadVars
      \<lparr>FUELTYPE = M1, ISI = 10, BUI = 60, FMC = 100, SFC = 1, PC = 50, PDF = 0, CC = 0, CBH = 7\<rparr>)"
  using M1_blend [of
      "\<lparr>FUELTYPE = M1, ISI = 10, BUI = 60, FMC = 100, SFC = 1, PC = 50, PDF = 0, CC = 0, CBH = 7\<rparr>"]
  by simp

text \<open>
  The claim as stated takes the C2 and D1 results at the same \<open>BUI = 60\<close>; they
  carry the buildup effects of C2 and of D1, the M1 result that of M1, and the
  two sides differ.
\<close>

theorem M1_blend_counterexample:
  "ROS (rateOfSpreadExtended
      \<lparr>FUELTYPE = M1, ISI = 10, BUI = 60, FMC = 100, SFC = 1, PC = 50, PDF = 0, CC = 0, CBH = 7\<rparr>)
   \<noteq> 0.5 * ROS (rateOfSpreadExtended
      \<lparr>FUELTYPE = C2, ISI = 10, BUI = 60, FMC = 100, SFC = 1, PC = 50, PDF = 0, CC = 0, CBH = 7\<rparr>)
     + 0.5 * ROS (rateOfSpreadExtended
      \<lparr>FUELTYPE = D1, ISI = 10, BUI = 60, FMC = 100, SFC = 1, PC = 50, PDF = 0, CC = 0, CBH = 7\<rparr>)
   \<and> vRSS (rateOfSpreadVars
      \<lparr>FUELTYPE = M1, ISI = 10, BUI = 60, FMC = 100, SFC = 1, PC = 50, PDF = 0, CC = 0, CBH = 7\<rparr>)
   \<noteq> 0.5 * vRSS (rateOfSpreadVars
      \<lparr>FUELTYPE = C2, ISI = 10, BUI = 60, FMC = 100, SFC = 1, PC = 50, PDF = 0, CC = 0, CBH = 7\<rparr>)
     + 0.5 * vRSS (rateOfSpreadVars
      \<lparr>FUELTYPE = D1, ISI = 10, BUI = 60, FMC = 100, SFC = 1, PC = 50, PDF = 0, CC = 0, CBH = 7\<rparr>)"
proof -
  let ?p = "\<lparr>FUELTYPE = M1, ISI = 10, BUI = 60, FMC = 100, SFC = 1, PC = 50, PDF = 0, CC = 0,
    CBH = 7 :: real\<rparr>"
  let ?pC = "\<lparr>FUELTYPE = C2, ISI = 10, BUI = 60, FMC = 100, SFC = 1, PC = 50, PDF = 0, CC = 0,
    CBH = 7 :: real\<rparr>"
  let ?pD = "\<lparr>FUELTYPE = D1, ISI = 10, BUI = 60, FMC = 100, SFC = 1, PC = 50, PDF = 0, CC = 0,
    CBH = 7 :: real\<rparr>"
  define A where "A = curve C2 10"
  define B where "B = curve D1 10"
  define m where "m = buildupEffect M1 60"
  define c where "c = buildupEffect C2 60"
  define e where "e = buildupEffect D1 60"
  have A: "10 \<le> A" and B: "0 < B" "B \<le> 3.75"
    unfolding A_def B_def by (rule curve_C2_10_lower curve_D1_10_bounds)+
  have m: "1 + 1 / 30 \<le> m" and c: "0 < c" "c \<le> 1" and e: "0 < e" "e \<le> 1.09"
    unfolding m_def c_def e_def
    by (rule BE_M1_60_lower BE_C2_60_upper BE_D1_60_upper buildupEffect_pos)+
  have rsi: "vRSI (rateOfSpreadVars ?p) = 0.5 * A + 0.5 * B"
    using RSI_M1 [of ?p] sub_ros [of C2 ?p] sub_ros [of D1 ?p] A B
    by (simp add: A_def B_def)
  have ros: "vROS (rateOfSpreadVars ?p) = m * (0.5 * A + 0.5 * B)"
    using rateOfSpread_mixed(1) [of ?p] rsi by (simp add: m_def)
  have rss: "vRSS (rateOfSpreadVars ?p) = m * (0.5 * A + 0.5 * B)"
    using rateOfSpread_mixed(2) [of ?p] ros by simp
  have sC: "vRSS (rateOfSpreadVars ?pC) = c * A" and sD: "vRSS (rateOfSpreadVars ?pD) = e * B"
    using vRSS_simple [of ?pC] vRSS_simple [of ?pD] by (simp_all add: A_def B_def c_def e_def)
  have "0 < m * (0.5 * A + 0.5 * B)"
    using m A B by (intro mult_pos_pos) simp_all
  with ros have lhs: "ROS (rateOfSpreadExtended ?p) = m * (0.5 * A + 0.5 * B)"
    by (simp add: floor_rule)
  have "0 < c * A" "0 < e * B"
    using c e A B by simp_all
  then have rC: "ROS (rateOfSpreadExtended ?pC) = c * A"
    and rD: "ROS (rateOfSpreadExtended ?pD) = e * B"
    using rateOfSpread_simple [of ?pC] rateOfSpread_simple [of ?pD]
    by (simp_all add: result_fields A_def B_def c_def e_def)
  have cA: "c * A \<le> 1 * A"
    using c A by (intro mult_right_mono) simp_all
  have eB: "e * B \<le> 109 / 100 * B"
    using e B by (intro mult_right_mono) simp_all
  have B': "B \<le> 15 / 4"
    using B by simp
  have mA: "(1 + 1 / 30) * A \<le> m * A"
    using m A by (intro mult_right_mono) simp_all
  have mB: "(1 + 1 / 30) * B \<le> m * B"
    using m B by (intro mult_right_mono) simp_all
  have key: "x / 2 + y / 2 < z / 2 + w / 2"
    if "x \<le> A" "y \<le> 109 / 100 * B" "31 / 30 * A \<le> z" "31 / 30 * B \<le> w" for x y z w :: real
    using that A B' by linarith
  have "(c * A) / 2 + (e * B) / 2 < (m * A) / 2 + (m * B) / 2"
    using cA eB mA mB by (intro key) simp_all
  also have "\<dots> = m * (0.5 * A + 0.5 * B)"
    by (simp add: algebra_simps)
  finally have "m * (0.5 * A + 0.5 * B) \<noteq> 0.5 * (c * A) + 0.5 * (e * B)"
    by simp
  then show ?thesis
    by (simp only: lhs rC rD rss sC sD simp_thms)
qed

subsection \<open>Monotonicity in the initial spread index\<close>

lemma coef_nonneg:
  assumes "ft \<in> set d_keys"
  shows "0 \<le> the (a_coef ft)" "0 \<le> the (b_coef ft)" "0 \<le> the (c0_coef ft)"
  using assms by (auto simp: d_keys_def a_coef_def b_coef_def c0_coef_def)

lemma coef_pos:
  assumes "ft \<in> set d_keys" "ft \<notin> {M1, M2}"
  shows "0 < the (a_coef ft)" "0 < the (b_coef ft)" "0 < the (c0_coef ft)"
  using assms by (auto simp: d_keys_def a_coef_def b_coef_def c0_coef_def)


lemma curve_pos:
  assumes "ft \<in> set d_keys" "ft \<notin> {M1, M2}" "0 < x"
  shows "0 < curve ft x"
proof -
  have "0 < the (b_coef ft) * x"
    using coef_pos(2) [OF assms(1,2)] assms(3) by (rule mult_pos_pos)
  then have "- the (b_coef ft) * x < 0"
    by simp
  then have "exp (- the (b_coef ft) * x) < 1"
    by (simp only: exp_less_one_iff)
  then have "0 < 1 - exp (- the (b_coef ft) * x)"
    by simp
  then have "1 - exp (- the (b_coef ft) * x) \<noteq> 0"
    by (rule less_imp_neq [THEN not_sym])
  then have "0 < (1 - exp (- the (b_coef ft) * x)) powr the (c0_coef ft)"
    by (metis powr_gt_zero)
  then show ?thesis
    unfolding curve_def using coef_pos(1) [OF assms(1,2)] by (rule mult_pos_pos [rotated])
qed






















text \<open>
  The simple fuel types in double precision. Every operation is monotone and
  rounding is monotone, so the unfloored value is non-decreasing in \<open>ISI\<close>, and
  the \<open>ROS\<close> returned is non-decreasing above the floor.
\<close>

lemma buildupEffect_double_nonneg: "0 \<le> buildupEffect_double ft bui"
  by (simp add: buildupEffect_double_def Math_exp_def round_double_nonneg split: option.split)

lemma base_double:
  assumes "0 \<le> b" "0 \<le> isi1" "isi1 \<le> isi2"
  shows "0 \<le> round_double (1 - Math_exp (round_double (- round_double b * isi1)))"
    and "round_double (1 - Math_exp (round_double (- round_double b * isi1)))
       \<le> round_double (1 - Math_exp (round_double (- round_double b * isi2)))"
proof -
  have b: "0 \<le> round_double b"
    using assms(1) by (rule round_double_nonneg)
  have "- round_double b * isi1 \<le> 0"
    using b assms(2) by (simp add: mult_nonneg_nonneg)
  then have "round_double (- round_double b * isi1) \<le> round_double 0"
    by (rule round_double_mono)
  then have "round_double (- round_double b * isi1) \<le> 0"
    by simp
  then have "Math_exp (round_double (- round_double b * isi1)) \<le> 1"
    by (rule Math_exp_range)
  then show "0 \<le> round_double (1 - Math_exp (round_double (- round_double b * isi1)))"
    by (intro round_double_nonneg) simp
  have "round_double b * isi1 \<le> round_double b * isi2"
    using b assms(3) by (rule mult_left_mono [rotated])
  then have "round_double (- round_double b * isi2) \<le> round_double (- round_double b * isi1)"
    by (intro round_double_mono) simp
  then have "Math_exp (round_double (- round_double b * isi2))
      \<le> Math_exp (round_double (- round_double b * isi1))"
    by (rule Math_exp_mono)
  then show "round_double (1 - Math_exp (round_double (- round_double b * isi1)))
       \<le> round_double (1 - Math_exp (round_double (- round_double b * isi2)))"
    by (intro round_double_mono) simp
qed

lemma curve_double_mono:
  assumes "ft \<in> set d_keys" "0 \<le> isi1" "isi1 \<le> isi2"
  shows "0 \<le> curve_double ft isi1" "curve_double ft isi1 \<le> curve_double ft isi2"
proof -
  let ?u1 = "round_double (1 - Math_exp (round_double (- round_double (the (b_coef ft)) * isi1)))"
  let ?u2 = "round_double (1 - Math_exp (round_double (- round_double (the (b_coef ft)) * isi2)))"
  let ?c = "round_double (the (c0_coef ft))"
  let ?a = "round_double (the (a_coef ft))"
  have a: "0 \<le> ?a" and c: "0 \<le> ?c"
    using coef_nonneg [OF assms(1)] by (simp_all add: round_double_nonneg)
  have u: "0 \<le> ?u1" "?u1 \<le> ?u2"
    using coef_nonneg(2) [OF assms(1)] assms(2,3) by (rule base_double)+
  have "?u1 powr ?c \<le> ?u2 powr ?c"
    using c u by (rule powr_mono2)
  then have p: "Math_pow ?u1 ?c \<le> Math_pow ?u2 ?c"
    unfolding Math_pow_def by (rule round_double_mono)
  have p0: "0 \<le> Math_pow ?u1 ?c"
    unfolding Math_pow_def by (intro round_double_nonneg) simp
  have "0 \<le> ?a * Math_pow ?u1 ?c"
    using a p0 by (rule mult_nonneg_nonneg)
  then show "0 \<le> curve_double ft isi1"
    unfolding curve_double_def by (rule round_double_nonneg)
  have "?a * Math_pow ?u1 ?c \<le> ?a * Math_pow ?u2 ?c"
    using p a by (rule mult_left_mono)
  then show "curve_double ft isi1 \<le> curve_double ft isi2"
    unfolding curve_double_def by (rule round_double_mono)
qed

lemma simpleRateOfSpread_double_mono:
  assumes "ft \<in> set [C1, C2, C3, C4, C5, C7, D1, S1, S2, S3]" "0 \<le> isi1" "isi1 \<le> isi2"
  shows "simpleRateOfSpread_double ft isi1 bui
     \<le> max (simpleRateOfSpread_double ft isi2 bui) (round_double 0.000001)"
proof -
  have k: "ft \<in> set d_keys"
    using assms(1) by (auto simp: d_keys_def)
  let ?r1 = "round_double (buildupEffect_double ft bui * curve_double ft isi1)"
  let ?r2 = "round_double (buildupEffect_double ft bui * curve_double ft isi2)"
  have "buildupEffect_double ft bui * curve_double ft isi1
      \<le> buildupEffect_double ft bui * curve_double ft isi2"
    using curve_double_mono(2) [OF k assms(2,3)] buildupEffect_double_nonneg
    by (rule mult_left_mono)
  then have "?r1 \<le> ?r2"
    by (rule round_double_mono)
  then show ?thesis
    by (simp add: simpleRateOfSpread_double_def Let_def le_max_iff_disj)
qed

text \<open>
  For \<open>ISI\<close> up to \<open>2\<close> to the power \<open>- 52\<close> the exponential is rounded to \<open>1\<close>, the
  curve is \<open>0\<close> and the floor is returned.
\<close>

lemma exp_near_one:
  fixes x :: real
  assumes "- (2 powr (- 55)) \<le> x" "x \<le> 0"
  shows "Math_exp x = 1"
proof -
  have "1 + - (2 powr (- 55)) \<le> exp (- (2 powr (- 55)) :: real)"
    by (rule exp_ge_add_one_self)
  also have "\<dots> \<le> exp x"
    using assms(1) by simp
  finally have "1 - 2 powr (- 55) \<le> exp x"
    by simp
  then have "round_double (1 - 2 powr (- 55)) \<le> Math_exp x"
    unfolding Math_exp_def by (rule round_double_mono)
  then have "1 \<le> Math_exp x"
    by (simp only: round_double_near_1)
  moreover have "Math_exp x \<le> 1"
    using assms(2) by (rule Math_exp_range)
  ultimately show ?thesis
    by simp
qed

lemma b_coef_upper: "ft \<in> set d_keys \<Longrightarrow> the (b_coef ft) \<le> 1 / 8"
  by (auto simp: d_keys_def b_coef_def)

lemma curve_double_underflow:
  assumes "ft \<in> set d_keys" "0 \<le> isi" "isi \<le> 2 powr (- 52)"
  shows "curve_double ft isi = 0"
proof -
  let ?b = "round_double (the (b_coef ft))"
  have b0: "0 \<le> ?b"
    using coef_nonneg(2) [OF assms(1)] by (rule round_double_nonneg)
  have "?b \<le> round_double (of_int 1 * 2 powr of_int (- 3))"
    using b_coef_upper [OF assms(1)] by (intro round_double_mono) (simp add: powr_minus_divide)
  then have b1: "?b \<le> 2 powr (- 3)"
    using round_double_exact [of 1 "- 3"] by simp
  have "?b * isi \<le> 2 powr (- 3) * 2 powr (- 52)"
    using b0 b1 assms(2,3) by (intro mult_mono) simp_all
  also have "\<dots> = 2 powr (- 55)"
    by (simp add: powr_add [symmetric])
  finally have "round_double (- (of_int 1 * 2 powr of_int (- 55))) \<le> round_double (- ?b * isi)"
    by (intro round_double_mono) simp
  then have lo: "- (2 powr (- 55)) \<le> round_double (- ?b * isi)"
    using round_double_exact [of 1 "- 55"] by (simp add: round_double_minus)
  have "- ?b * isi \<le> 0"
    using b0 assms(2) by (simp add: mult_nonneg_nonneg)
  then have "round_double (- ?b * isi) \<le> round_double 0"
    by (rule round_double_mono)
  then have hi: "round_double (- ?b * isi) \<le> 0"
    by simp
  have "Math_exp (round_double (- ?b * isi)) = 1"
    using lo hi by (rule exp_near_one)
  then show ?thesis
    by (simp add: curve_double_def Math_pow_def)
qed

lemma simpleRateOfSpread_double_underflow:
  assumes "ft \<in> set [C1, C2, C3, C4, C5, C7, D1, S1, S2, S3]" "0 \<le> isi" "isi \<le> 2 powr (- 52)"
  shows "simpleRateOfSpread_double ft isi bui = round_double 0.000001"
proof -
  have "ft \<in> set d_keys"
    using assms(1) by (auto simp: d_keys_def)
  then have "curve_double ft isi = 0"
    using assms(2,3) by (rule curve_double_underflow)
  then show ?thesis
    by (simp add: simpleRateOfSpread_double_def)
qed

text \<open>
  At \<open>ISI\<close> equal to \<open>2\<close> to the power \<open>- 30\<close> the curve of C2 is positive and far
  below the floor: in double precision the \<open>ROS\<close> returned is not monotone on the
  positive values of \<open>ISI\<close> either.
\<close>

lemma exp_minus_upper:
  fixes x :: real
  assumes "0 \<le> x" "x \<le> 1"
  shows "exp (- x) \<le> 1 - x / 2"
proof -
  have "x / (1 + x) \<le> 1 - exp (- x)"
    using assms(1) by (rule one_minus_exp_lower)
  moreover have "x / 2 \<le> x / (1 + x)"
    using assms by (intro divide_left_mono) simp_all
  ultimately show ?thesis
    by linarith
qed

lemma curve_double_C2_small:
  "2 powr (- 74) \<le> curve_double C2 (2 powr (- 30))"
  "curve_double C2 (2 powr (- 30)) \<le> 2 powr (- 28)"
proof -
  let ?b = "round_double (0.0282 :: real)"
  let ?t = "round_double (- ?b * 2 powr (- 30))"
  let ?u = "round_double (1 - Math_exp ?t)"
  have "round_double (2 powr of_int (- 6)) \<le> ?b"
    by (intro round_double_mono) (simp add: powr_minus_divide)
  then have b_lo: "2 powr (- 6) \<le> ?b"
    using round_double_pow2 [of "- 6"] by simp
  have "?b \<le> round_double (2 powr of_int (- 5))"
    by (intro round_double_mono) (simp add: powr_minus_divide)
  then have b_hi: "?b \<le> 2 powr (- 5)"
    using round_double_pow2 [of "- 5"] by simp
  have "2 powr (- 6) * 2 powr (- 30) \<le> ?b * 2 powr (- 30)"
    using b_lo by (intro mult_right_mono) simp_all
  then have "2 powr (- 36) \<le> ?b * 2 powr (- 30)"
    by (simp add: powr_add [symmetric])
  then have "?t \<le> round_double (- (2 powr of_int (- 36)))"
    by (intro round_double_mono) simp
  then have t_hi: "?t \<le> - (2 powr (- 36))"
    using round_double_pow2 [of "- 36"] by (simp add: round_double_minus)
  have "?b * 2 powr (- 30) \<le> 2 powr (- 5) * 2 powr (- 30)"
    using b_hi by (intro mult_right_mono) simp_all
  then have "?b * 2 powr (- 30) \<le> 2 powr (- 35)"
    by (simp add: powr_add [symmetric])
  then have "round_double (- (2 powr of_int (- 35))) \<le> ?t"
    by (intro round_double_mono) simp
  then have t_lo: "- (2 powr (- 35)) \<le> ?t"
    using round_double_pow2 [of "- 35"] by (simp add: round_double_minus)
  have "exp ?t \<le> exp (- (2 powr (- 36)))"
    using t_hi by (simp only: exp_le_cancel_iff)
  also have "\<dots> \<le> 1 - 2 powr (- 36) / 2"
    by (rule exp_minus_upper) (simp_all add: powr_minus_divide)
  also have "\<dots> = of_int (2 ^ 37 - 1) * 2 powr of_int (- 37)"
    by (simp add: powr_minus_divide)
  finally have "Math_exp ?t \<le> round_double (of_int (2 ^ 37 - 1) * 2 powr of_int (- 37))"
    unfolding Math_exp_def by (rule round_double_mono)
  then have "Math_exp ?t \<le> of_int (2 ^ 37 - 1) * 2 powr of_int (- 37)"
    using round_double_exact [of "2 ^ 37 - 1" "- 37"] by simp
  then have "2 powr (- 37) \<le> 1 - Math_exp ?t"
    by (simp add: powr_minus_divide)
  then have "round_double (2 powr of_int (- 37)) \<le> ?u"
    by (intro round_double_mono) simp
  then have u_lo: "2 powr (- 37) \<le> ?u"
    using round_double_pow2 [of "- 37"] by simp
  have "1 + - (2 powr (- 35)) \<le> exp (- (2 powr (- 35)) :: real)"
    by (rule exp_ge_add_one_self)
  also have "\<dots> \<le> exp ?t"
    using t_lo by (simp only: exp_le_cancel_iff)
  finally have "of_int (2 ^ 35 - 1) * 2 powr of_int (- 35) \<le> exp ?t"
    by (simp add: powr_minus_divide)
  then have "round_double (of_int (2 ^ 35 - 1) * 2 powr of_int (- 35)) \<le> Math_exp ?t"
    unfolding Math_exp_def by (rule round_double_mono)
  then have "of_int (2 ^ 35 - 1) * 2 powr of_int (- 35) \<le> Math_exp ?t"
    using round_double_exact [of "2 ^ 35 - 1" "- 35"] by simp
  then have "1 - Math_exp ?t \<le> 2 powr (- 35)"
    by (simp add: powr_minus_divide)
  then have "?u \<le> round_double (2 powr of_int (- 35))"
    by (intro round_double_mono) simp
  then have u_hi: "?u \<le> 2 powr (- 35)"
    using round_double_pow2 [of "- 35"] by simp
  have c: "round_double (3 / 2 :: real) = 3 / 2"
    using round_double_exact [of 3 "- 1"] by (simp add: powr_minus_divide)
  have a: "round_double (110 :: real) = 110"
    using round_double_int [of 110] by simp
  have u0: "0 < ?u"
    using u_lo by (rule less_le_trans [rotated]) simp
  have "(2 powr (- 37)) powr 2 \<le> (2 powr (- 37)) powr (3 / 2 :: real)"
    by (intro powr_mono') (simp_all add: powr_minus_divide)
  also have "\<dots> \<le> ?u powr (3 / 2)"
    using u_lo by (intro powr_mono2) simp_all
  finally have "2 powr of_int (- 74) \<le> ?u powr (3 / 2)"
    by (simp add: powr_powr)
  then have "round_double (2 powr of_int (- 74)) \<le> Math_pow ?u (3 / 2)"
    unfolding Math_pow_def by (rule round_double_mono)
  then have p_lo: "2 powr (- 74) \<le> Math_pow ?u (3 / 2)"
    using round_double_pow2 [of "- 74"] by simp
  have u1: "?u \<le> 1"
    using u_hi by (rule order_trans) (simp add: powr_minus_divide)
  have "?u powr (3 / 2) \<le> ?u powr 1"
    using u0 u1 by (intro powr_mono') simp_all
  also have "\<dots> \<le> 2 powr of_int (- 35)"
    using u0 u_hi by simp
  finally have "Math_pow ?u (3 / 2) \<le> round_double (2 powr of_int (- 35))"
    unfolding Math_pow_def by (rule round_double_mono)
  then have p_hi: "Math_pow ?u (3 / 2) \<le> 2 powr (- 35)"
    using round_double_pow2 [of "- 35"] by simp
  have cd: "curve_double C2 (2 powr (- 30)) = round_double (110 * Math_pow ?u (3 / 2))"
    by (simp add: curve_double_def a_coef_def b_coef_def c0_coef_def d_keys_def a c)
  have p0: "0 \<le> Math_pow ?u (3 / 2)"
    unfolding Math_pow_def by (intro round_double_nonneg) simp
  then have "1 * Math_pow ?u (3 / 2) \<le> 110 * Math_pow ?u (3 / 2)"
    by (intro mult_right_mono) simp_all
  then have "2 powr (- 74) \<le> 110 * Math_pow ?u (3 / 2)"
    using p_lo by linarith
  then have "round_double (2 powr of_int (- 74)) \<le> round_double (110 * Math_pow ?u (3 / 2))"
    by (intro round_double_mono) simp
  then show "2 powr (- 74) \<le> curve_double C2 (2 powr (- 30))"
    using round_double_pow2 [of "- 74"] by (simp add: cd)
  have "110 * Math_pow ?u (3 / 2) \<le> 128 * 2 powr (- 35)"
    using p_hi p0 by (intro mult_mono) simp_all
  also have "\<dots> = 2 powr of_int (- 28)"
    by (simp add: powr_minus_divide)
  finally have "round_double (110 * Math_pow ?u (3 / 2)) \<le> round_double (2 powr of_int (- 28))"
    by (rule round_double_mono)
  then show "curve_double C2 (2 powr (- 30)) \<le> 2 powr (- 28)"
    using round_double_pow2 [of "- 28"] by (simp add: cd)
qed

lemma simpleRateOfSpread_double_not_mono:
  "(2 :: real) powr (- 52) \<le> 2 powr (- 30) \<and>
   simpleRateOfSpread_double C2 (2 powr (- 30)) (- 1)
     < simpleRateOfSpread_double C2 (2 powr (- 52)) (- 1)"
proof -
  let ?x = "curve_double C2 (2 powr (- 30))"
  have be: "buildupEffect_double C2 (- 1) = 1"
    by (simp add: buildupEffect_double_def split: option.split)
  have x: "2 powr of_int (- 74) \<le> ?x" "?x \<le> 2 powr of_int (- 28)"
    using curve_double_C2_small by simp_all
  have "round_double (2 powr of_int (- 74)) \<le> round_double ?x"
    using x(1) by (rule round_double_mono)
  then have "2 powr (- 74) \<le> round_double ?x"
    using round_double_pow2 [of "- 74"] by simp
  then have lo: "0 < round_double ?x"
    by (rule less_le_trans [rotated]) simp
  have "round_double ?x \<le> round_double (2 powr of_int (- 28))"
    using x(2) by (rule round_double_mono)
  then have hi: "round_double ?x \<le> 2 powr (- 28)"
    using round_double_pow2 [of "- 28"] by simp
  have "round_double (2 powr of_int (- 20)) \<le> round_double 0.000001"
    by (intro round_double_mono) (simp add: powr_minus_divide)
  then have fl: "2 powr (- 20) \<le> round_double 0.000001"
    using round_double_pow2 [of "- 20"] by simp
  have lt: "(2 :: real) powr (- 28) < 2 powr (- 20)"
    by simp
  have r1: "simpleRateOfSpread_double C2 (2 powr (- 30)) (- 1) = round_double ?x"
    using lo by (simp add: simpleRateOfSpread_double_def be Let_def)
  have r2: "simpleRateOfSpread_double C2 (2 powr (- 52)) (- 1) = round_double 0.000001"
    by (rule simpleRateOfSpread_double_underflow) simp_all
  have "round_double ?x < round_double 0.000001"
    using hi lt fl by linarith
  then show ?thesis
    by (simp only: r1 r2) simp
qed







subsection \<open>The wind inversion\<close>







subsection \<open>Batches of observations\<close>

lemma slopeAdjustment_length: "length (slopeAdjustment obs) = length obs"
  by (simp add: slopeAdjustment_def Let_def)

text \<open>
  Without \<^verbatim>\<open>"NF"\<close> and \<^verbatim>\<open>"WA"\<close> in the batch, each result is a function of its own
  observation; the tests for M1 to M4 on the whole batch change nothing. With one
  of them anywhere in the batch, every result is the pair of nulls.
\<close>

lemma map2_same: "map2 f xs (map g xs) = map (\<lambda>x. f x (g x)) xs"
  by (induction xs) simp_all

lemma guarded_stage:
  assumes "\<And>ob x. ob \<in> set obs \<Longrightarrow> \<not> P \<Longrightarrow> f ob x = x"
  shows "(if P then map2 f obs (map g obs) else map g obs) = map (\<lambda>ob. f ob (g ob)) obs"
  using assms by (auto simp: map2_same)

lemma not_in_batch:
  assumes "ob \<in> set obs" "ft \<notin> set (map FUELTYPE obs)"
  shows "FUELTYPE ob \<noteq> ft"
  using assms by auto

lemma slopeAdjustment_pointwise:
  "slopeAdjustment obs =
     (if NF \<in> FUELTYPE ` set obs \<or> WA \<in> FUELTYPE ` set obs
      then map (\<lambda>_. \<lparr>WSV = None, RAZ = None\<rparr>) obs
      else map (\<lambda>ob. windVector ob (ISF_at ob)) obs)"
proof -
  let ?g1 = "\<lambda>ob. ISF_basic ob (- 99)"
  let ?g2 = "\<lambda>ob. ISF_M1M2 ob (?g1 ob)"
  let ?g3 = "\<lambda>ob. ISF_M3 ob (?g2 ob)"
  let ?g4 = "\<lambda>ob. ISF_M4 ob (?g3 ob)"
  let ?FT = "map FUELTYPE obs"
  have s1: "map2 ISF_basic obs (map (\<lambda>_. - 99) obs) = map ?g1 obs"
    by (rule map2_same)
  have s2: "(if M1 \<in> set ?FT \<or> M2 \<in> set ?FT then map2 ISF_M1M2 obs (map ?g1 obs) else map ?g1 obs)
      = map ?g2 obs"
    by (rule guarded_stage) (simp add: ISF_M1M2_def not_in_batch)
  have s3: "(if M3 \<in> set ?FT then map2 ISF_M3 obs (map ?g2 obs) else map ?g2 obs) = map ?g3 obs"
    by (rule guarded_stage) (simp add: ISF_M3_def not_in_batch)
  have s4: "(if M4 \<in> set ?FT then map2 ISF_M4 obs (map ?g3 obs) else map ?g3 obs) = map ?g4 obs"
    by (rule guarded_stage) (simp add: ISF_M4_def not_in_batch)
  have s5: "map2 ISF_grass obs (map ?g4 obs) = map ISF_at obs"
    unfolding ISF_at_def by (rule map2_same)
  have s6: "map2 windVector obs (map ISF_at obs) = map (\<lambda>ob. windVector ob (ISF_at ob)) obs"
    by (rule map2_same)
  show ?thesis
    unfolding slopeAdjustment_def Let_def s1 s2 s3 s4 s5 s6 by simp
qed

text \<open>
  Claim C9 says that changing another observation of the batch, for example
  setting its fuel type to \<^verbatim>\<open>"NF"\<close>, leaves the outputs of this observation
  unchanged. The code at a batch of two observations: with fuel types C2 and D1
  the first result has a wind speed; with the second fuel type set to \<^verbatim>\<open>"NF"\<close>
  the first result is the pair of nulls.
\<close>

theorem slopeAdjustment_batch_NF:
  "WSV (slopeAdjustment
      [\<lparr>FUELTYPE = C2, ISI = 5, BUI = 60, FMC = 100, SFC = 1, PC = 50, PDF = 50, CC = 80, CBH = 7,
        FFMC = 90, WS = 10, WAZ = 0, GS = 0, SAZ = 0\<rparr>,
       \<lparr>FUELTYPE = D1, ISI = 5, BUI = 60, FMC = 100, SFC = 1, PC = 50, PDF = 50, CC = 80, CBH = 7,
        FFMC = 90, WS = 10, WAZ = 0, GS = 0, SAZ = 0\<rparr>] ! 0) \<noteq> None \<and>
   WSV (slopeAdjustment
      [\<lparr>FUELTYPE = C2, ISI = 5, BUI = 60, FMC = 100, SFC = 1, PC = 50, PDF = 50, CC = 80, CBH = 7,
        FFMC = 90, WS = 10, WAZ = 0, GS = 0, SAZ = 0\<rparr>,
       \<lparr>FUELTYPE = NF, ISI = 5, BUI = 60, FMC = 100, SFC = 1, PC = 50, PDF = 50, CC = 80, CBH = 7,
        FFMC = 90, WS = 10, WAZ = 0, GS = 0, SAZ = 0\<rparr>] ! 0) = None \<and>
   RAZ (slopeAdjustment
      [\<lparr>FUELTYPE = C2, ISI = 5, BUI = 60, FMC = 100, SFC = 1, PC = 50, PDF = 50, CC = 80, CBH = 7,
        FFMC = 90, WS = 10, WAZ = 0, GS = 0, SAZ = 0\<rparr>,
       \<lparr>FUELTYPE = NF, ISI = 5, BUI = 60, FMC = 100, SFC = 1, PC = 50, PDF = 50, CC = 80, CBH = 7,
        FFMC = 90, WS = 10, WAZ = 0, GS = 0, SAZ = 0\<rparr>] ! 0) = None"
  by (simp add: slopeAdjustment_pointwise windVector_def Let_def)

subsection \<open>Slopecalc\<close>

lemma Slopecalc_nonempty:
  assumes "obs \<noteq> []"
  shows "Slopecalc obs output =
     (if output \<in> {''RAZ'', ''WAZ'', ''WSV''} then Inr (slopeAdjustment obs)
      else Inl (InvalidOutput output))"
proof -
  have "slopeAdjustment obs \<noteq> []"
    using assms slopeAdjustment_length [of obs] by auto
  then show ?thesis
    by (auto simp: Slopecalc_def Let_def split: list.split)
qed

text \<open>
  Claim C10 says that \<open>Slopecalc\<close> throws exactly when \<open>output\<close> is not one of
  \<^verbatim>\<open>"RAZ"\<close>, \<^verbatim>\<open>"WAZ"\<close>, \<^verbatim>\<open>"WSV"\<close>. The code at the empty batch: it throws for each
  of the three valid options.
\<close>

theorem Slopecalc_empty_batch:
  "Slopecalc [] ''RAZ'' = Inl TypeError \<and> Slopecalc [] ''WAZ'' = Inl TypeError \<and>
   Slopecalc [] ''WSV'' = Inl TypeError"
  by (simp add: Slopecalc_def slopeAdjustment_def Let_def)

subsection \<open>Flat ground\<close>

text \<open>
  The inversion of the curve gives back the initial spread index it was computed
  from, as long as the clamp at \<open>0.01\<close> is not reached.
\<close>

lemma invertCurve_roundtrip:
  assumes "0 < A" "0 < B" "0 < C" "0 < x" "0.01 \<le> exp (- B * x)"
  shows "invertCurve A B C (A * (1 - exp (- B * x)) powr C) = x"
proof -
  define u where "u = 1 - exp (- B * x)"
  have "- B * x < 0" using assms(2,4) by (simp add: mult_pos_pos)
  then have "exp (- B * x) < 1" by (simp only: exp_less_one_iff)
  then have u: "0 < u" by (simp add: u_def)
  have "(A * u powr C) / A = u powr C"
    using assms(1) by simp
  moreover have "(u powr C) powr (1 / C) = u"
    using u assms(3) by (simp add: powr_powr)
  ultimately have "1 - ((A * u powr C) / A) powr (1 / C) = exp (- B * x)"
    by (simp add: u_def)
  then have "invertCurve A B C (A * u powr C) = ln (exp (- B * x)) / - B"
    using assms(5) by (simp add: invertCurve_def Let_def)
  also have "\<dots> = x"
    using assms(2) by simp
  finally show ?thesis
    by (simp only: u_def)
qed

lemma rateOfSpread_zero_wind_simple:
  assumes "ft \<in> set [C1, C2, C3, C4, C5, C7, D1, S1, S2, S3]" "0 < ISZ_at ob"
  shows "rateOfSpread (zeroWindParams ob ft pdf) = curve ft (ISZ_at ob)"
proof -
  have k: "ft \<in> set d_keys" "ft \<notin> {M1, M2}"
    using assms(1) by (auto simp: d_keys_def)
  have "0 < curve ft (ISZ_at ob)"
    using k assms(2) by (rule curve_pos)
  then show ?thesis
    using rateOfSpread_simple [of "zeroWindParams ob ft pdf"] assms(1)
    by (simp add: rateOfSpread_def result_fields zeroWindParams_def buildupEffect_nonpos)
qed

lemma ISF_at_flat_simple:
  assumes ft: "FUELTYPE ob \<in> set [C1, C2, C3, C4, C5, C7, D1, S1, S2, S3]"
    and gs: "GS ob = 0" and isz: "0 < ISZ_at ob"
    and clamp: "0.01 \<le> exp (- the (b_coef (FUELTYPE ob)) * ISZ_at ob)"
  shows "ISF_at ob = ISZ_at ob"
proof -
  have k: "FUELTYPE ob \<in> set d_keys" "FUELTYPE ob \<notin> {M1, M2}"
    using ft by (auto simp: d_keys_def)
  have sf: "SF_at ob = 1"
    using gs by (simp add: SF_at_def)
  have rsf: "RSF_at ob = curve (FUELTYPE ob) (ISZ_at ob)"
    using rateOfSpread_zero_wind_simple [OF ft isz] by (simp add: RSF_at_def RSZ_at_def sf)
  have "ISF_basic ob (- 99) = invertCurve (the (a_coef (FUELTYPE ob))) (the (b_coef (FUELTYPE ob)))
          (the (c0_coef (FUELTYPE ob))) (curve (FUELTYPE ob) (ISZ_at ob))"
    using ft by (simp only: ISF_basic_def rsf) auto
  also have "\<dots> = ISZ_at ob"
    unfolding curve_def using coef_pos [OF k] isz clamp by (rule invertCurve_roundtrip)
  finally have b: "ISF_basic ob (- 99) = ISZ_at ob" .
  have "FUELTYPE ob \<notin> {M1, M2, M3, M4, O1A, O1B}"
    using ft by auto
  then show ?thesis
    by (simp add: ISF_at_def ISF_M1M2_def ISF_M3_def ISF_M4_def ISF_grass_def b)
qed

text \<open>
  Bounds at \<open>FFMC = 90\<close>. \<open>initialSpreadIndex\<close> computes the moisture content
  \<open>59.5 * (101 - 90) / (59.5 + 90) = 1309 / 299\<close>, \<open>slopeAdjustment\<close> uses
  \<open>101 - 90 = 11\<close>.
\<close>

lemma ln_fF:
  fixes x :: real
  assumes "0 \<le> x"
  shows "ln (91.9 * exp (- 0.1386 * x) * (1 + x powr 5.31 / 49300000))
       = ln 91.9 - 0.1386 * x + ln (1 + x powr 5.31 / 49300000)"
proof -
  have e: "0 \<le> x powr 5.31 / 49300000" by simp
  have "ln (91.9 * exp (- 0.1386 * x) * (1 + x powr 5.31 / 49300000))
      = ln (91.9 * exp (- 0.1386 * x)) + ln (1 + x powr 5.31 / 49300000)"
    using e by (intro ln_mult_pos) (simp_all add: add_pos_nonneg)
  also have "ln (91.9 * exp (- 0.1386 * x)) = ln 91.9 + ln (exp (- 0.1386 * x))"
    by (intro ln_mult_pos) simp_all
  finally show ?thesis by simp
qed

lemma eps_bounds:
  fixes x :: real
  assumes "1 \<le> x" "x \<le> X"
  shows "0 \<le> ln (1 + x powr 5.31 / 49300000)"
    and "ln (1 + x powr 5.31 / 49300000) \<le> X ^ 6 / 49300000"
    and "x powr 5.31 / 49300000 \<le> X ^ 6 / 49300000"
proof -
  have "x powr 5.31 \<le> x powr 6"
    using assms(1) by (intro powr_mono) simp_all
  also have "\<dots> \<le> X powr 6"
    using assms by (intro powr_mono2) simp_all
  also have "\<dots> = X ^ 6"
    using assms by simp
  finally show b: "x powr 5.31 / 49300000 \<le> X ^ 6 / 49300000"
    by simp
  have e: "0 \<le> x powr 5.31 / 49300000" by simp
  then show "0 \<le> ln (1 + x powr 5.31 / 49300000)"
    by simp
  have "ln (1 + x powr 5.31 / 49300000) \<le> x powr 5.31 / 49300000"
    using e by (rule ln_add_one_self_le_self)
  then show "ln (1 + x powr 5.31 / 49300000) \<le> X ^ 6 / 49300000"
    using b by linarith
qed


lemma ISZ_value:
  "initialSpreadIndex 90 0 False
     = 0.208 * (91.9 * exp (- 0.1386 * (1309 / 299)) * (1 + (1309 / 299) powr 5.31 / 49300000))"
  by (simp add: initialSpreadIndex_def Let_def)

lemma flat_C2_wse:
  fixes isz g11 :: real
  defines "isz \<equiv> 0.208 * (91.9 * exp (- 0.1386 * (1309 / 299)) * (1 + (1309 / 299) powr 5.31 / 49300000))"
    and "g11 \<equiv> 91.9 * exp (- 0.1386 * 11) * (1 + 11 powr 5.31 / 49300000)"
  shows "0 < isz" "isz \<le> 20" "17 < WSE_at isz g11" "WSE_at isz g11 < 19"
proof -
  define gfm :: real where
    "gfm = 91.9 * exp (- 0.1386 * (1309 / 299)) * (1 + (1309 / 299) powr 5.31 / 49300000)"
  have isz: "isz = 0.208 * gfm"
    by (simp add: isz_def gfm_def)
  have e1: "0 \<le> ln (1 + (1309 / 299 :: real) powr 5.31 / 49300000)"
    "ln (1 + (1309 / 299 :: real) powr 5.31 / 49300000) \<le> 5 ^ 6 / 49300000"
    "(1309 / 299 :: real) powr 5.31 / 49300000 \<le> 5 ^ 6 / 49300000"
    by (rule eps_bounds [of "1309 / 299" 5]; simp)+
  have e2: "0 \<le> ln (1 + (11 :: real) powr 5.31 / 49300000)"
    "ln (1 + (11 :: real) powr 5.31 / 49300000) \<le> 11 ^ 6 / 49300000"
    by (rule eps_bounds [of 11 11]; simp)+
  have gfm_pos: "0 < gfm"
    unfolding gfm_def by (intro mult_pos_pos add_pos_nonneg) simp_all
  have g11_pos: "0 < g11"
    unfolding g11_def by (intro mult_pos_pos add_pos_nonneg) simp_all
  show "0 < isz"
    using gfm_pos by (simp add: isz)
  have "exp (- 0.1386 * (1309 / 299 :: real)) \<le> 1"
    by simp
  then have "91.9 * exp (- 0.1386 * (1309 / 299 :: real)) \<le> 91.9 * 1"
    by (intro mult_left_mono) simp_all
  moreover have "1 + (1309 / 299 :: real) powr 5.31 / 49300000 \<le> 1 + 5 ^ 6 / 49300000"
    using e1(3) by simp
  ultimately have "gfm \<le> 91.9 * 1 * (1 + 5 ^ 6 / 49300000)"
    unfolding gfm_def by (intro mult_mono) simp_all
  then show "isz \<le> 20"
    by (simp add: isz)
  define a :: real where "a = ln (1 + (1309 / 299) powr 5.31 / 49300000)"
  define b :: real where "b = ln (1 + 11 powr 5.31 / 49300000)"
  have a: "0 \<le> a" "a \<le> 15625 / 49300000"
    using e1(1,2) by (simp_all only: a_def) simp
  have b: "0 \<le> b" "b \<le> 1771561 / 49300000"
    using e2 by (simp_all only: b_def) simp
  have lf: "ln gfm = ln 91.9 - 0.1386 * (1309 / 299) + a"
    unfolding gfm_def a_def by (rule ln_fF) simp
  have l11: "ln g11 = ln 91.9 - 0.1386 * 11 + b"
    unfolding g11_def b_def by (rule ln_fF) simp
  have "isz / (0.208 * g11) = gfm / g11"
    by (simp add: isz)
  then have "ln (isz / (0.208 * g11)) = ln gfm - ln g11"
    using gfm_pos g11_pos by (simp add: ln_div)
  then have w: "WSE_at isz g11 = 1 / 0.05039 * (ln gfm - ln g11)"
    by (simp add: WSE_at_def)
  have d: "ln gfm - ln g11 = 0.1386 * 11 - 0.1386 * (1309 / 299) + a - b"
    by (simp add: lf l11)
  have lo: "0.86 < ln gfm - ln g11"
    unfolding d using a b by simp
  have hi: "ln gfm - ln g11 < 0.95"
    unfolding d using a b by simp
  show "17 < WSE_at isz g11"
    using lo unfolding w by simp
  show "WSE_at isz g11 < 19"
    using hi unfolding w by simp
qed

lemma windVector_aligned:
  assumes "WAZ ob = 0" "SAZ ob = 0"
  shows "WSV (windVector ob isf) =
     Some \<bar>WS ob + adjustedWSE_at isf
       (91.9 * exp (- 0.1386 * (101 - FFMC ob)) * (1 + (101 - FFMC ob) powr 5.31 / 49300000))\<bar>"
  using assms by (simp add: windVector_def Let_def)

text \<open>
  Claim C6 says that for C2 and ground slope \<open>0\<close> the net effective wind speed
  \<open>WSV\<close> equals the wind speed \<open>WS\<close>. The code at \<open>FFMC = 90\<close>, \<open>WS = 10\<close>, wind and
  slope azimuth \<open>0\<close>: the inversion of the curve returns the zero-wind initial
  spread index, the wind inversion turns it into an equivalent wind speed between
  \<open>17\<close> and \<open>19\<close>, and \<open>WSV\<close> is more than \<open>27\<close>.
\<close>

theorem slopeAdjustment_flat_C2:
  "WSV (slopeAdjustment
      [\<lparr>FUELTYPE = C2, ISI = 5, BUI = 60, FMC = 100, SFC = 1, PC = 50, PDF = 50, CC = 80, CBH = 7,
        FFMC = 90, WS = 10, WAZ = 0, GS = 0, SAZ = 0\<rparr>] ! 0) \<noteq> None \<and>
   27 < the (WSV (slopeAdjustment
      [\<lparr>FUELTYPE = C2, ISI = 5, BUI = 60, FMC = 100, SFC = 1, PC = 50, PDF = 50, CC = 80, CBH = 7,
        FFMC = 90, WS = 10, WAZ = 0, GS = 0, SAZ = 0\<rparr>] ! 0))"
proof -
  let ?ob = "\<lparr>FUELTYPE = C2, ISI = 5, BUI = 60, FMC = 100, SFC = 1, PC = 50, PDF = 50, CC = 80,
    CBH = 7, FFMC = 90, WS = 10, WAZ = 0, GS = 0, SAZ = 0 :: real\<rparr>"
  define isz :: real where
    "isz = 0.208 * (91.9 * exp (- 0.1386 * (1309 / 299)) * (1 + (1309 / 299) powr 5.31 / 49300000))"
  define g11 :: real where "g11 = 91.9 * exp (- 0.1386 * 11) * (1 + 11 powr 5.31 / 49300000)"
  have bounds: "0 < isz" "isz \<le> 20" "17 < WSE_at isz g11" "WSE_at isz g11 < 19"
    unfolding isz_def g11_def by (rule flat_C2_wse)+
  have "ISZ_at ?ob = initialSpreadIndex 90 0 False"
    by (simp add: ISZ_at_def)
  also have "\<dots> = isz"
    unfolding isz_def by (rule ISZ_value)
  finally have iszv: "ISZ_at ?ob = isz" .
  have "- (141 / 250) \<le> - 0.0282 * isz"
    using bounds(2) by simp
  then have "exp (- (141 / 250) :: real) \<le> exp (- 0.0282 * isz)"
    by (simp only: exp_le_cancel_iff)
  moreover have "(109 / 250 :: real) \<le> exp (- (141 / 250))"
    using exp_ge_add_one_self [of "- (141 / 250) :: real"] by simp
  ultimately have "(109 / 250 :: real) \<le> exp (- 0.0282 * isz)"
    by (rule order_trans [rotated])
  then have clamp: "0.01 \<le> exp (- 0.0282 * isz)"
    by (rule order_trans [rotated]) simp
  have "ISF_at ?ob = ISZ_at ?ob"
    using bounds(1) clamp
    by (intro ISF_at_flat_simple) (simp_all add: iszv b_coef_def d_keys_def)
  then have isf: "ISF_at ?ob = isz"
    by (simp only: iszv)
  have adj: "adjustedWSE_at isz g11 = WSE_at isz g11"
    using bounds(4) by (simp add: adjustedWSE_at_def Let_def)
  have al: "WAZ ?ob = 0" "SAZ ?ob = 0"
    by simp_all
  have ff: "91.9 * exp (- 0.1386 * (101 - FFMC ?ob)) * (1 + (101 - FFMC ?ob) powr 5.31 / 49300000)
      = g11"
    by (simp add: g11_def)
  have "WSV (windVector ?ob isz) = Some \<bar>WS ?ob + adjustedWSE_at isz g11\<bar>"
    using windVector_aligned [OF al, of isz] by (simp only: ff)
  then have "WSV (windVector ?ob isz) = Some (10 + WSE_at isz g11)"
    using bounds(3) by (simp add: adj)
  moreover have "slopeAdjustment [?ob] ! 0 = windVector ?ob isz"
    by (simp add: slopeAdjustment_pointwise isf)
  ultimately show ?thesis
    using bounds(3) by simp
qed

subsection \<open>The wind inversion of slopeAdjustment\<close>





end
